theory Spec2Isabelle
  imports Main "HOL-Library.Log_Nat"
begin

section \<open>Gift-card checkout study: the step flow of \<open>src/app.js\<close>\<close>

subsection \<open>JavaScript numbers\<close>

text \<open>
  A Number is NaN, an infinity or a finite double, carried as the rational it denotes
  (negative zero is identified with zero: no operation used here tells them apart).
  \<open>to_double\<close> is IEEE 754 binary64 rounding to nearest, ties to even: the exponent is
  that of the value but at least -1022 (below it the spacing stays that of the
  subnormals), the spacing of doubles at that exponent is \<open>2 powi (e - 52)\<close>, and a
  result of \<open>2 ^ 1024\<close> or more overflows to an infinity.
\<close>

datatype jsnum = NaN | PInf | NInf | Fin rat

definition round_half_even :: "rat \<Rightarrow> int" where
  "round_half_even q =
     (let f = \<lfloor>q\<rfloor>; r = q - of_int f
      in if r < 1/2 then f else if 1/2 < r then f + 1 else if even f then f else f + 1)"

definition floor_log2 :: "rat \<Rightarrow> int" where
  "floor_log2 a =
     (let (p, q) = quotient_of a; k = bitlen p - bitlen q
      in if 2 powi k \<le> a then k else k - 1)"

definition to_double :: "rat \<Rightarrow> jsnum" where
  "to_double q =
     (if q = 0 then Fin 0
      else let a = \<bar>q\<bar>;
               e = max (floor_log2 a) (- 1022);
               ulp = 2 powi (e - 52);
               r = of_int (round_half_even (a / ulp)) * ulp
           in if 2 ^ 1024 \<le> r then (if 0 < q then PInf else NInf)
              else Fin (if 0 < q then r else - r))"

definition js_neg :: "jsnum \<Rightarrow> jsnum" where
  "js_neg n = (case n of NaN \<Rightarrow> NaN | PInf \<Rightarrow> NInf | NInf \<Rightarrow> PInf | Fin q \<Rightarrow> Fin (- q))"

text \<open>\<open>x >= c\<close> for a Number \<open>x\<close> and a finite constant \<open>c\<close>: false on NaN.\<close>

definition js_ge :: "jsnum \<Rightarrow> rat \<Rightarrow> bool" where
  "js_ge n c = (case n of NaN \<Rightarrow> False | PInf \<Rightarrow> True | NInf \<Rightarrow> False | Fin q \<Rightarrow> c \<le> q)"

text \<open>
  \<open>Math.round\<close> followed by \<open>Number.isFinite\<close>: the nearest integer, ties towards
  \<open>+\<infinity>\<close>, or \<open>None\<close> for NaN and the infinities. On a double, \<open>\<lfloor>x + 1/2\<rfloor>\<close> is exact:
  from \<open>2 ^ 52\<close> on, every double is an integer already.
\<close>

definition Math_round :: "jsnum \<Rightarrow> int option" where
  "Math_round n = (case n of Fin q \<Rightarrow> Some \<lfloor>q + 1/2\<rfloor> | _ \<Rightarrow> None)"

text \<open>\<open>clampInt(n, min, max)\<close>; every caller passes integer bounds.\<close>

definition clampInt :: "jsnum \<Rightarrow> int \<Rightarrow> int \<Rightarrow> int" where
  "clampInt n mn mx = (case Math_round n of None \<Rightarrow> mn | Some x \<Rightarrow> min mx (max mn x))"

subsection \<open>JavaScript strings\<close>

text \<open>Strings are lists of 8-bit characters, read as the code units 0..255.\<close>

definition is_digit :: "char \<Rightarrow> bool" where
  "is_digit c \<longleftrightarrow> c \<in> set ''0123456789''"

text \<open>\<open>\s\<close> and \<open>trim\<close>: the white space and line terminators among the code units 0..255.\<close>

definition is_space :: "char \<Rightarrow> bool" where
  "is_space c \<longleftrightarrow> (of_char c :: nat) \<in> {9, 10, 11, 12, 13, 32, 160}"

text \<open>\<open>\w\<close> is \<open>[A-Za-z0-9_]\<close>.\<close>

definition is_word :: "char \<Rightarrow> bool" where
  "is_word c \<longleftrightarrow>
     (let n = of_char c :: nat
      in (65 \<le> n \<and> n \<le> 90) \<or> (97 \<le> n \<and> n \<le> 122) \<or> (48 \<le> n \<and> n \<le> 57) \<or> n = 95)"

text \<open>\<open>toLowerCase\<close> on the code units 0..255: the letters A-Z and the capital letters of
  the range \<open>0xC0..0xDE\<close> (all but the multiplication sign \<open>0xD7\<close>).\<close>

definition lower_char :: "char \<Rightarrow> char" where
  "lower_char c =
     (case map_of
       (zip ''ABCDEFGHIJKLMNOPQRSTUVWXYZ'' ''abcdefghijklmnopqrstuvwxyz'' @
        [(CHR 0xC0, CHR 0xE0), (CHR 0xC1, CHR 0xE1), (CHR 0xC2, CHR 0xE2), (CHR 0xC3, CHR 0xE3),
        (CHR 0xC4, CHR 0xE4), (CHR 0xC5, CHR 0xE5), (CHR 0xC6, CHR 0xE6), (CHR 0xC7, CHR 0xE7),
        (CHR 0xC8, CHR 0xE8), (CHR 0xC9, CHR 0xE9), (CHR 0xCA, CHR 0xEA), (CHR 0xCB, CHR 0xEB),
        (CHR 0xCC, CHR 0xEC), (CHR 0xCD, CHR 0xED), (CHR 0xCE, CHR 0xEE), (CHR 0xCF, CHR 0xEF),
        (CHR 0xD0, CHR 0xF0), (CHR 0xD1, CHR 0xF1), (CHR 0xD2, CHR 0xF2), (CHR 0xD3, CHR 0xF3),
        (CHR 0xD4, CHR 0xF4), (CHR 0xD5, CHR 0xF5), (CHR 0xD6, CHR 0xF6), (CHR 0xD8, CHR 0xF8),
        (CHR 0xD9, CHR 0xF9), (CHR 0xDA, CHR 0xFA), (CHR 0xDB, CHR 0xFB), (CHR 0xDC, CHR 0xFC),
        (CHR 0xDD, CHR 0xFD), (CHR 0xDE, CHR 0xFE)]) c of
        None \<Rightarrow> c
      | Some l \<Rightarrow> l)"

definition toLowerCase :: "string \<Rightarrow> string" where
  "toLowerCase s = map lower_char s"

definition js_trim :: "string \<Rightarrow> string" where
  "js_trim s = rev (dropWhile is_space (rev (dropWhile is_space s)))"

definition startsWith :: "string \<Rightarrow> string \<Rightarrow> bool" where
  "startsWith s p \<longleftrightarrow> take (length p) s = p"

fun js_includes :: "string \<Rightarrow> string \<Rightarrow> bool" where
  "js_includes [] k = (k = [])"
| "js_includes (c # cs) k = (startsWith (c # cs) k \<or> js_includes cs k)"

text \<open>\<open>s.split(" ")\<close>.\<close>

fun split_space :: "string \<Rightarrow> string list" where
  "split_space [] = [[]]"
| "split_space (c # cs) =
     (if c = CHR '' '' then [] # split_space cs
      else (case split_space cs of [] \<Rightarrow> [[c]] | w # ws \<Rightarrow> (c # w) # ws))"

text \<open>A JavaScript string is falsy when it is \<open>undefined\<close> (absent) or empty.\<close>

definition truthy :: "string option \<Rightarrow> bool" where
  "truthy v = (case v of None \<Rightarrow> False | Some s \<Rightarrow> s \<noteq> [])"

text \<open>\<open>v || d\<close> on a string that may be absent.\<close>

definition or_else :: "string option \<Rightarrow> string \<Rightarrow> string" where
  "or_else v d = (case v of None \<Rightarrow> d | Some s \<Rightarrow> if s = [] then d else s)"

subsection \<open>\<open>Number(string)\<close>\<close>

text \<open>
  The StringNumericLiteral grammar: the string is trimmed; the empty string is 0; then a
  binary, octal or hexadecimal integer (\<open>0b\<close>, \<open>0o\<close>, \<open>0x\<close>, no sign), or an optional sign
  followed by \<open>Infinity\<close> or by digits with an optional fraction and exponent; anything
  else is NaN. The value is rounded to a double.
\<close>

definition digit_value :: "char \<Rightarrow> nat option" where
  "digit_value c =
     map_of [(CHR ''0'', 0), (CHR ''1'', 1), (CHR ''2'', 2), (CHR ''3'', 3), (CHR ''4'', 4),
             (CHR ''5'', 5), (CHR ''6'', 6), (CHR ''7'', 7), (CHR ''8'', 8), (CHR ''9'', 9),
             (CHR ''a'', 10), (CHR ''b'', 11), (CHR ''c'', 12), (CHR ''d'', 13), (CHR ''e'', 14),
             (CHR ''f'', 15), (CHR ''A'', 10), (CHR ''B'', 11), (CHR ''C'', 12), (CHR ''D'', 13),
             (CHR ''E'', 14), (CHR ''F'', 15)] c"

fun radix_digits :: "nat \<Rightarrow> nat \<Rightarrow> string \<Rightarrow> nat option" where
  "radix_digits b acc [] = Some acc"
| "radix_digits b acc (c # cs) =
     (case digit_value c of
        None \<Rightarrow> None
      | Some d \<Rightarrow> if d < b then radix_digits b (b * acc + d) cs else None)"

definition parse_digits :: "nat \<Rightarrow> string \<Rightarrow> nat option" where
  "parse_digits b cs = (if cs = [] then None else radix_digits b 0 cs)"

definition parse_nondecimal :: "string \<Rightarrow> nat option" where
  "parse_nondecimal t =
     (case t of
        z # x # r \<Rightarrow>
          if z \<noteq> CHR ''0'' then None
          else if x = CHR ''x'' \<or> x = CHR ''X'' then parse_digits 16 r
          else if x = CHR ''o'' \<or> x = CHR ''O'' then parse_digits 8 r
          else if x = CHR ''b'' \<or> x = CHR ''B'' then parse_digits 2 r
          else None
      | _ \<Rightarrow> None)"

definition parse_exponent :: "string \<Rightarrow> int option" where
  "parse_exponent s =
     (case s of
        [] \<Rightarrow> Some 0
      | c # r \<Rightarrow>
          if c = CHR ''e'' \<or> c = CHR ''E'' then
            (case r of
               [] \<Rightarrow> None
             | d # r' \<Rightarrow>
                 if d = CHR ''+'' then map_option int (parse_digits 10 r')
                 else if d = CHR ''-'' then map_option (\<lambda>n. - int n) (parse_digits 10 r')
                 else map_option int (parse_digits 10 r))
          else None)"

definition parse_unsigned_decimal :: "string \<Rightarrow> rat option" where
  "parse_unsigned_decimal s =
     (let ip = takeWhile is_digit s;
          r1 = dropWhile is_digit s;
          fp = (case r1 of [] \<Rightarrow> [] | c # r \<Rightarrow> if c = CHR ''.'' then takeWhile is_digit r else []);
          r2 = (case r1 of [] \<Rightarrow> [] | c # r \<Rightarrow> if c = CHR ''.'' then dropWhile is_digit r else r1)
      in if ip = [] \<and> fp = [] then None
         else case (radix_digits 10 0 (ip @ fp), parse_exponent r2) of
                (Some m, Some ex) \<Rightarrow> Some (of_nat m * 10 powi (ex - int (length fp)))
              | _ \<Rightarrow> None)"

definition parse_unsigned :: "string \<Rightarrow> jsnum" where
  "parse_unsigned s =
     (if s = ''Infinity'' then PInf
      else case parse_unsigned_decimal s of None \<Rightarrow> NaN | Some q \<Rightarrow> to_double q)"

definition parse_decimal :: "string \<Rightarrow> jsnum" where
  "parse_decimal s =
     (case s of
        [] \<Rightarrow> NaN
      | c # r \<Rightarrow>
          if c = CHR ''-'' then js_neg (parse_unsigned r)
          else if c = CHR ''+'' then parse_unsigned r
          else parse_unsigned s)"

definition js_Number :: "string \<Rightarrow> jsnum" where
  "js_Number s =
     (let t = js_trim s
      in if t = [] then Fin 0
         else case parse_nondecimal t of
                Some n \<Rightarrow> to_double (of_nat n)
              | None \<Rightarrow> parse_decimal t)"

text \<open>\<open>String(n)\<close> on an integer: its decimal digits (below \<open>10 ^ 21\<close> in magnitude, which
  the clamp ranges are).\<close>

fun nat_digits :: "nat \<Rightarrow> string" where
  "nat_digits n =
     (if n < 10 then [''0123456789'' ! n] else nat_digits (n div 10) @ [''0123456789'' ! (n mod 10)])"

declare nat_digits.simps [simp del]

definition js_String :: "int \<Rightarrow> string" where
  "js_String n = (if n < 0 then CHR ''-'' # nat_digits (nat (- n)) else nat_digits (nat n))"

subsection \<open>The answer store\<close>

text \<open>
  The answer store \<open>answers\<close> is a plain object whose values are always strings: every
  call of \<open>setAnswer\<close> passes an attribute value, an input's \<open>value\<close>, a literal or
  \<open>String(n)\<close>. It is modelled as a partial map from keys to strings; an absent key is
  JavaScript's \<open>undefined\<close>.

  \<open>setAnswer\<close> writes \<open>answers\<close> and \<open>session.answers\<close> with the same key and value and
  deletes the same keys from both; nothing else writes either object, so one map stands
  for the two.
\<close>

type_synonym answer_store = "string \<rightharpoonup> string"

subsection \<open>Steps\<close>

datatype kind = Choice | Design | Number | Amount | Text | Info

record step =
  step_id :: string
  title :: string
  required :: bool
  kind :: kind
  options :: "string list option"

text \<open>\<open>step({ id, title, required = true, kind = "choice", options = null, render })\<close>;
  the \<open>render\<close> closure produces markup only and is left out.\<close>

definition mk_step :: "string \<Rightarrow> string \<Rightarrow> bool \<Rightarrow> kind \<Rightarrow> string list option \<Rightarrow> step" where
  "mk_step i t r k os = \<lparr>step_id = i, title = t, required = r, kind = k, options = os\<rparr>"

record design =
  d_id :: string
  d_label :: string
  d_style :: string
  d_category :: string

definition mk_design :: "string \<Rightarrow> string \<Rightarrow> string \<Rightarrow> string \<Rightarrow> design" where
  "mk_design i l s c = \<lparr>d_id = i, d_label = l, d_style = s, d_category = c\<rparr>"

definition CARD_DESIGNS :: "design list" where
  "CARD_DESIGNS =
    [mk_design ''balloons'' ''Bright Balloons'' ''bg-balloons'' ''Celebration'',
     mk_design ''confetti'' ''Confetti Pop'' ''bg-confetti'' ''Celebration'',
     mk_design ''birthday'' ''Birthday Cake'' ''bg-birthday'' ''Celebration'',
     mk_design ''love'' ''Love Notes'' ''bg-love'' ''Greetings'',
     mk_design ''thanks'' ''Thank You'' ''bg-thanks'' ''Appreciation'',
     mk_design ''holiday'' ''Holiday Cheer'' ''bg-holiday'' ''Seasonal'',
     mk_design ''gold'' ''Golden Luxe'' ''bg-gold'' ''Luxury'',
     mk_design ''black'' ''Matte Black'' ''bg-black'' ''Luxury'',
     mk_design ''classic'' ''Classic Red'' ''bg-classic'' ''Classic'',
     mk_design ''neon'' ''Neon Night'' ''bg-neon'' ''Modern'',
     mk_design ''pastel'' ''Soft Pastels'' ''bg-pastel'' ''Any Occasion'',
     mk_design ''minimal1'' ''Minimal Light'' ''bg-minimal-1'' ''Minimal'',
     mk_design ''minimal2'' ''Minimal Dark'' ''bg-minimal-2'' ''Minimal'',
     mk_design ''fun1'' ''Smile Waves'' ''bg-fun-1'' ''Fun'',
     mk_design ''fun2'' ''Fresh Mint'' ''bg-fun-2'' ''Fun'',
     mk_design ''nature1'' ''Green Calm'' ''bg-nature-1'' ''Nature'',
     mk_design ''nature2'' ''Ocean Blue'' ''bg-nature-2'' ''Nature'',
     mk_design ''abs1'' ''Abstract Flow'' ''bg-abs-1'' ''Abstract'',
     mk_design ''abs2'' ''Abstract Bold'' ''bg-abs-2'' ''Abstract'',
     mk_design ''skyline'' ''City Skyline'' ''bg-skyline'' ''Modern'',
     mk_design ''lavender'' ''Lavender Haze'' ''bg-lavender'' ''Any Occasion'',
     mk_design ''sand'' ''Sunny Sand'' ''bg-sand'' ''Seasonal'',
     mk_design ''mint'' ''Mint Glow'' ''bg-mint'' ''Modern'',
     mk_design ''kids'' ''Kids Party'' ''bg-kids'' ''Kids'']"

definition baseSteps :: "step list" where
  "baseSteps =
    [mk_step ''card_type'' ''Select Card Type'' True Choice (Some [''Physical'', ''Digital'']),
     mk_step ''variant'' ''Card Variant'' True Choice (Some [''Reloadable'', ''Non-reloadable'']),
     mk_step ''expiry'' ''Expiry & Pricing'' True Choice
       (Some [''No expiry (higher price)'', ''6-month expiry'', ''12-month expiry'']),
     mk_step ''design'' ''Choose a Design'' True Design (Some (map d_label CARD_DESIGNS)),
     mk_step ''activation'' ''Delivery & Activation'' True Choice
       (Some [''Same activation for all cards'', ''Unique activation per card'',
              ''Bulk activation by sender'', ''Activation via card number'']),
     mk_step ''r1_qty'' ''Recipient: Quantity'' True Number None,
     mk_step ''r1_amt'' ''Recipient: Gift amount'' True Amount None,
     mk_step ''r1_msg'' ''Recipient: Gift message (optional)'' False Text None]"

definition getConditionalSteps :: "answer_store \<Rightarrow> step list" where
  "getConditionalSteps answers =
    (if answers ''card_type'' = Some ''Digital'' then
       [mk_step ''digital_delivery'' ''Digital Delivery Method'' True Choice (Some [''Email'', ''SMS'']),
        mk_step ''digital_identifier'' ''Delivery Identifier'' False Info None]
     else
       [mk_step ''packaging'' ''Packaging'' True Choice
          (Some [''Greeting card'', ''Trifold printed paper'', ''Box packaging'']),
        mk_step ''shipping_method'' ''Shipping Method'' True Choice
          (Some [''Standard shipping'', ''Expedited shipping'']),
        mk_step ''shipping_address'' ''Shipping Address'' False Info None])"

definition paymentStep :: step where
  "paymentStep = mk_step ''payment'' ''Payment Method'' True Choice
     (Some [''Test Credit Card (4242)'', ''Test Debit Card (1111)''])"

definition computeFlow :: "answer_store \<Rightarrow> step list" where
  "computeFlow answers = baseSteps @ getConditionalSteps answers @ [paymentStep]"

subsection \<open>Writing answers\<close>

definition setAnswer :: "string \<Rightarrow> string \<Rightarrow> answer_store \<Rightarrow> answer_store" where
  "setAnswer key val answers =
     (let a = answers(key \<mapsto> val)
      in if key = ''card_type'' then
           (if val = ''Digital'' then
              a(''packaging'' := None, ''shipping_method'' := None, ''shipping_address'' := None)
            else if val = ''Physical'' then
              a(''digital_delivery'' := None, ''digital_identifier'' := None)
            else a)
         else a)"

definition ensureRecipient1Defaults :: "answer_store \<Rightarrow> answer_store" where
  "ensureRecipient1Defaults answers =
     (let a1 = (if \<not> truthy (answers ''r1_qty'') then setAnswer ''r1_qty'' ''1'' answers else answers);
          a2 = (if \<not> truthy (a1 ''r1_amt'') then setAnswer ''r1_amt'' ''50'' a1 else a1)
      in if a2 ''r1_msg'' = None then setAnswer ''r1_msg'' [] a2 else a2)"

definition ensureDesignDefaults :: "answer_store \<Rightarrow> answer_store" where
  "ensureDesignDefaults answers =
     (let a1 = (if \<not> truthy (answers ''design_category'') then setAnswer ''design_category'' ''All'' answers
                else answers)
      in if \<not> truthy (a1 ''design'') then setAnswer ''design'' ''confetti'' a1 else a1)"

subsection \<open>Step gate\<close>

text \<open>\<open>Number(v)\<close> on a stored answer: \<open>Number(undefined)\<close> is NaN.\<close>

definition Number_of :: "string option \<Rightarrow> jsnum" where
  "Number_of v = (case v of None \<Rightarrow> NaN | Some s \<Rightarrow> js_Number s)"

definition isStepComplete :: "step \<Rightarrow> answer_store \<Rightarrow> bool" where
  "isStepComplete stepObj answers =
     (if \<not> required stepObj then True
      else if kind stepObj = Design then truthy (answers ''design'')
      else if kind stepObj = Choice then truthy (answers (step_id stepObj))
      else if kind stepObj = Number then js_ge (Number_of (answers ''r1_qty'')) 1
      else if kind stepObj = Amount then js_ge (Number_of (answers ''r1_amt'')) 5
      else True)"

subsection \<open>Pricing\<close>

text \<open>
  The price is a double; it is carried as a rational. Quantity and amount are integers
  after \<open>clampInt\<close>, their product is at most 20000, and every surcharge is a multiple of
  one half, so each sum below is a double and no addition rounds.
\<close>

record totals =
  qty :: int
  amt :: int
  giftTotal :: int

text \<open>\<open>Number(v ?? d)\<close>.\<close>

definition Number_nullish :: "string option \<Rightarrow> jsnum \<Rightarrow> jsnum" where
  "Number_nullish v d = (case v of None \<Rightarrow> d | Some s \<Rightarrow> js_Number s)"

definition computeTotals :: "answer_store \<Rightarrow> totals \<times> answer_store" where
  "computeTotals answers =
     (let a = ensureRecipient1Defaults answers;
          q = clampInt (Number_nullish (a ''r1_qty'') (Fin 1)) 1 10;
          m = clampInt (Number_nullish (a ''r1_amt'') (Fin 50)) 5 2000
      in (\<lparr>qty = q, amt = m, giftTotal = q * m\<rparr>, a))"

definition canShowPrice :: "answer_store \<Rightarrow> bool" where
  "canShowPrice answers =
     (if \<not> truthy (answers ''card_type'') then False
      else if \<not> truthy (answers ''expiry'') then False
      else if \<not> truthy (answers ''r1_qty'') \<or> \<not> truthy (answers ''r1_amt'') then False
      else if answers ''card_type'' = Some ''Physical'' then
        (if \<not> truthy (answers ''packaging'') then False
         else if \<not> truthy (answers ''shipping_method'') then False
         else True)
      else if \<not> truthy (answers ''digital_delivery'') then False
      else True)"

text \<open>\<open>v && v.startsWith(p)\<close>.\<close>

definition starts :: "string option \<Rightarrow> string \<Rightarrow> bool" where
  "starts v p = (case v of None \<Rightarrow> False | Some s \<Rightarrow> s \<noteq> [] \<and> startsWith s p)"

definition computePrice :: "answer_store \<Rightarrow> rat \<times> answer_store" where
  "computePrice answers =
     (let (t, a) = computeTotals answers;
          total0 = of_int (giftTotal t);
          total1 = (if starts (a ''expiry'') ''No expiry'' then total0 + 6 else total0);
          total2 = (if starts (a ''expiry'') ''12-month'' then total1 + 2 else total1);
          total3 =
            (if a ''card_type'' = Some ''Physical'' then
               (let packaging = or_else (a ''packaging'') ''Greeting card'';
                    shippingMethod = or_else (a ''shipping_method'') ''Standard shipping'';
                    p1 = (if js_includes packaging ''Trifold'' then total2 + 5/2 else total2);
                    p2 = (if js_includes packaging ''Box'' then p1 + 4 else p1)
                in p2 + (if js_includes shippingMethod ''Expedited'' then 12 else 4))
             else total2)
      in (max total3 10, a))"

text \<open>What \<open>refreshPreview\<close> does to the answers (the rest of it writes the page).\<close>

definition refreshPreview :: "answer_store \<Rightarrow> answer_store" where
  "refreshPreview answers =
     (let a1 = ensureDesignDefaults (ensureRecipient1Defaults answers);
          a2 = snd (computeTotals a1)
      in if canShowPrice a2 then snd (computePrice a2) else a2)"

subsection \<open>Free-form input\<close>

definition keep_char :: "char \<Rightarrow> char" where
  "keep_char c = (if is_word c \<or> is_space c \<or> c = CHR ''$'' then c else CHR '' '')"

text \<open>\<open>replace(/\s+/g, " ")\<close>; the flag says that the previous character was white space.\<close>

fun collapse_spaces :: "bool \<Rightarrow> string \<Rightarrow> string" where
  "collapse_spaces inrun [] = []"
| "collapse_spaces inrun (c # cs) =
     (if is_space c then (if inrun then collapse_spaces True cs else CHR '' '' # collapse_spaces True cs)
      else c # collapse_spaces False cs)"

definition normalizeText :: "string \<Rightarrow> string" where
  "normalizeText s = js_trim (collapse_spaces False (map keep_char (toLowerCase s)))"

text \<open>\<open>s.split(" ").filter(Boolean)\<close>.\<close>

definition tokens :: "string \<Rightarrow> string list" where
  "tokens s = filter (\<lambda>t. t \<noteq> []) (split_space s)"

text \<open>\<open>options.find(p)\<close> when the result is then tested for truthiness.\<close>

definition find_truthy :: "(string \<Rightarrow> bool) \<Rightarrow> string list \<Rightarrow> string option" where
  "find_truthy p opts = (case find p opts of None \<Rightarrow> None | Some d \<Rightarrow> if d = [] then None else Some d)"

definition option_score :: "string \<Rightarrow> string \<Rightarrow> rat" where
  "option_score clean opt =
     (let ot = normalizeText opt
      in of_nat (length (filter (\<lambda>t. t \<in> set (tokens clean)) (tokens ot)))
         + (if startsWith ot clean then 1/2 else 0)
         + (if startsWith clean ot then 1/2 else 0))"

definition score_step :: "string \<Rightarrow> string option \<times> rat \<Rightarrow> string \<Rightarrow> string option \<times> rat" where
  "score_step clean acc opt =
     (if snd acc < option_score clean opt then (Some opt, option_score clean opt) else acc)"

definition bestOptionMatch :: "string \<Rightarrow> string list \<Rightarrow> string option" where
  "bestOptionMatch input opts =
     (if input = [] \<or> opts = [] then None
      else let clean = normalizeText input
           in case find_truthy (\<lambda>opt. normalizeText opt = clean) opts of
                Some d \<Rightarrow> Some d
              | None \<Rightarrow>
                 (case find_truthy (\<lambda>opt. js_includes (normalizeText opt) clean) opts of
                    Some d \<Rightarrow> Some d
                  | None \<Rightarrow>
                     (case find_truthy (\<lambda>opt. js_includes clean (normalizeText opt)) opts of
                        Some d \<Rightarrow> Some d
                      | None \<Rightarrow>
                         (let r = foldl (score_step clean) (None, - 1) opts
                          in if 1 \<le> snd r then fst r else None))))"

text \<open>\<open>s.match(/-?\d+/)\<close>: the leftmost match, the digits taken greedily.\<close>

fun digitMatch :: "string \<Rightarrow> string option" where
  "digitMatch [] = None"
| "digitMatch (c # cs) =
     (if is_digit c then Some (c # takeWhile is_digit cs)
      else if c = CHR ''-'' \<and> (case cs of [] \<Rightarrow> False | d # _ \<Rightarrow> is_digit d)
        then Some (c # takeWhile is_digit cs)
      else digitMatch cs)"

definition number_words :: "(string \<times> nat) list" where
  "number_words =
     [(''zero'', 0), (''one'', 1), (''won'', 1), (''two'', 2), (''to'', 2), (''too'', 2),
      (''three'', 3), (''four'', 4), (''for'', 4), (''five'', 5), (''six'', 6), (''seven'', 7),
      (''eight'', 8), (''ate'', 8), (''nine'', 9), (''ten'', 10)]"

definition parseSpokenNumberClosest :: "string \<Rightarrow> int \<Rightarrow> int \<Rightarrow> jsnum \<Rightarrow> int" where
  "parseSpokenNumberClosest raw mn mx fallback =
     (if raw = [] then clampInt fallback mn mx
      else let s = toLowerCase raw
           in case digitMatch s of
                Some m \<Rightarrow> clampInt (js_Number m) mn mx
              | None \<Rightarrow>
                 (case find (\<lambda>kv. js_includes s (fst kv)) number_words of
                    Some kv \<Rightarrow> clampInt (Fin (of_nat (snd kv))) mn mx
                  | None \<Rightarrow> clampInt fallback mn mx))"

text \<open>\<open>Number(v || d)\<close>.\<close>

definition Number_or :: "string option \<Rightarrow> jsnum \<Rightarrow> jsnum" where
  "Number_or v d = (if truthy v then Number_of v else d)"

definition applyFreeformToStep :: "step \<Rightarrow> string \<Rightarrow> answer_store \<Rightarrow> answer_store" where
  "applyFreeformToStep stepObj raw answers =
     (let text = normalizeText raw
      in case kind stepObj of
           Choice \<Rightarrow>
             (case bestOptionMatch text (case options stepObj of None \<Rightarrow> [] | Some os \<Rightarrow> os) of
                None \<Rightarrow> answers
              | Some best \<Rightarrow>
                  if best = [] then answers
                  else refreshPreview (setAnswer (step_id stepObj) best answers))
         | Design \<Rightarrow>
             (case bestOptionMatch text (map d_label CARD_DESIGNS) of
                None \<Rightarrow> answers
              | Some bestLabel \<Rightarrow>
                  if bestLabel = [] then answers
                  else refreshPreview
                    (case find (\<lambda>x. d_label x = bestLabel) CARD_DESIGNS of
                       None \<Rightarrow> answers
                     | Some d \<Rightarrow> setAnswer ''design'' (d_id d) answers))
         | Number \<Rightarrow>
             refreshPreview
               (setAnswer ''r1_qty''
                  (js_String (parseSpokenNumberClosest raw 1 10 (Number_or (answers ''r1_qty'') (Fin 1))))
                  answers)
         | Amount \<Rightarrow>
             refreshPreview
               (setAnswer ''r1_amt''
                  (js_String (parseSpokenNumberClosest raw 5 2000 (Number_or (answers ''r1_amt'') (Fin 50))))
                  answers)
         | Text \<Rightarrow> setAnswer ''r1_msg'' (take 140 (js_trim raw)) answers
         | Info \<Rightarrow> answers)"

subsection \<open>Input modality\<close>

datatype condition = CondA | CondB | CondC

text \<open>
  The modality tables are plain objects, so reading a key they do not own falls through
  to \<open>Object.prototype\<close> and gives one of its members (a function, or the prototype
  itself for \<open>__proto__\<close>) rather than \<open>undefined\<close>. A value read from a table is
  therefore a string or such an object.
\<close>

datatype jsval = Str string | Obj

definition Object_prototype_keys :: "string list" where
  "Object_prototype_keys =
     [''constructor'', ''hasOwnProperty'', ''isPrototypeOf'', ''propertyIsEnumerable'',
      ''toLocaleString'', ''toString'', ''valueOf'', ''__proto__'', ''__defineGetter__'',
      ''__defineSetter__'', ''__lookupGetter__'', ''__lookupSetter__'']"

definition js_get :: "(string \<rightharpoonup> string) \<Rightarrow> string \<Rightarrow> jsval option" where
  "js_get obj k =
     (case obj k of
        Some v \<Rightarrow> Some (Str v)
      | None \<Rightarrow> if k \<in> set Object_prototype_keys then Some Obj else None)"

text \<open>\<open>v || d\<close> on such a value.\<close>

definition val_or :: "jsval option \<Rightarrow> string \<Rightarrow> jsval" where
  "val_or v d =
     (case v of None \<Rightarrow> Str d | Some Obj \<Rightarrow> Obj | Some (Str s) \<Rightarrow> if s = [] then Str d else Str s)"

definition CONDITION_C_MAP_PHYSICAL :: "string \<rightharpoonup> string" where
  "CONDITION_C_MAP_PHYSICAL =
     map_of
       [(''card_type'', ''voice''), (''variant'', ''voice''), (''expiry'', ''chat''),
        (''design'', ''standard''), (''activation'', ''voice''), (''packaging'', ''chat''),
        (''r1_qty'', ''voice''), (''r1_amt'', ''chat''), (''r1_msg'', ''chat''),
        (''shipping_method'', ''voice''), (''shipping_address'', ''chat''), (''payment'', ''standard'')]"

definition CONDITION_C_MAP_DIGITAL :: "string \<rightharpoonup> string" where
  "CONDITION_C_MAP_DIGITAL =
     map_of
       [(''card_type'', ''voice''), (''variant'', ''chat''), (''expiry'', ''standard''),
        (''design'', ''standard''), (''activation'', ''voice''), (''r1_qty'', ''chat''),
        (''r1_amt'', ''voice''), (''r1_msg'', ''chat''), (''digital_delivery'', ''voice''),
        (''digital_identifier'', ''standard''), (''payment'', ''chat'')]"

definition getConditionCMap :: "answer_store \<Rightarrow> (string \<rightharpoonup> string)" where
  "getConditionCMap answers =
     (if answers ''card_type'' = Some ''Physical'' then CONDITION_C_MAP_PHYSICAL
      else CONDITION_C_MAP_DIGITAL)"

definition resolveInputMethodForStep :: "condition \<Rightarrow> jsval \<Rightarrow> answer_store \<Rightarrow> string \<Rightarrow> jsval" where
  "resolveInputMethodForStep cond currentInputMethod answers stepId =
     (if cond = CondC then val_or (js_get (getConditionCMap answers) stepId) ''standard''
      else val_or (Some currentInputMethod) ''standard'')"

definition isManualInputAllowedForCurrentStep :: "condition \<Rightarrow> jsval \<Rightarrow> step option \<Rightarrow> bool" where
  "isManualInputAllowedForCurrentStep cond currentInputMethod stepObj =
     (if stepObj = None then True
      else if cond = CondA then True
      else val_or (Some currentInputMethod) ''standard'' = Str ''standard'')"

subsection \<open>Session state\<close>

text \<open>Times are \<open>Date.now()\<close> readings, in milliseconds; each function that reads the
  clock takes the reading as an argument.\<close>

record transition =
  action :: string
  from_step_id :: "string option"
  from_step_index :: nat
  to_step_id :: "string option"
  to_step_index :: "nat option"
  step_count :: nat
  enteredAt :: "int option"
  exitedAt :: int
  dwellMs :: "int option"

text \<open>A survey answer is a Number or \<open>null\<close>.\<close>

datatype sval = SNum jsnum | SNull

record session =
  startedAt :: "int option"
  checkoutCompletedAt :: "int option"
  surveySubmittedAt :: "int option"
  taskDurationMs :: "int option"
  transitions :: "transition list"
  input_method_by_step :: "string \<rightharpoonup> jsval"
  survey :: "string \<rightharpoonup> sval"

text \<open>The document that \<open>writeFinal\<close> adds to the collection \<open>study_events\<close>.\<close>

record study_event =
  ev_condition :: condition
  ev_session :: session
  ev_answers :: answer_store
  ev_ts :: int

text \<open>
  The state of the page: the module's variables, and of the document what the handlers
  below depend on or report through (the visible screen, the survey status line, the
  alerts shown, the submit button, the documents written).
\<close>

record app =
  currentStep :: nat
  stepEnteredAt :: "int option"
  answers :: answer_store
  session :: session
  currentInputMethod :: jsval
  screen :: string
  surveyStatus :: string
  alerts :: "string list"
  submitDisabled :: bool
  study_events :: "study_event list"

definition initial_app :: app where
  "initial_app =
     \<lparr>currentStep = 0, stepEnteredAt = None, answers = Map.empty,
      session = \<lparr>startedAt = None, checkoutCompletedAt = None, surveySubmittedAt = None,
                 taskDurationMs = None, transitions = [], input_method_by_step = Map.empty,
                 survey = Map.empty\<rparr>,
      currentInputMethod = Str ''standard'', screen = ''introScreen'', surveyStatus = [],
      alerts = [], submitDisabled = False, study_events = []\<rparr>"

subsection \<open>Rendering a step and navigating\<close>

definition renderStep :: "condition \<Rightarrow> int \<Rightarrow> app \<Rightarrow> app" where
  "renderStep cond now st =
     (let flow = computeFlow (answers st)
      in if length flow \<le> currentStep st then
           st\<lparr>session := (session st)
                 \<lparr>checkoutCompletedAt := Some now,
                  taskDurationMs := Some (now - (case startedAt (session st) of None \<Rightarrow> 0 | Some t \<Rightarrow> t))\<rparr>,
              screen := ''surveyScreen''\<rparr>
         else
           let stepObj = flow ! currentStep st;
               a = ensureDesignDefaults (ensureRecipient1Defaults (answers st));
               m = (if cond = CondC then resolveInputMethodForStep cond (currentInputMethod st) a (step_id stepObj)
                    else if cond = CondA then Str ''standard''
                    else currentInputMethod st);
               by_step = (if cond = CondC then (input_method_by_step (session st))(step_id stepObj \<mapsto> m)
                    else if cond = CondA then input_method_by_step (session st)
                    else (input_method_by_step (session st))
                           (step_id stepObj \<mapsto> val_or (Some (currentInputMethod st)) ''standard''))
           in st\<lparr>answers := refreshPreview a,
                 currentInputMethod := m,
                 session := (session st)\<lparr>input_method_by_step := by_step\<rparr>,
                 stepEnteredAt := Some now\<rparr>)"

text \<open>\<open>toStep\<close> is the step with its \<open>index\<close> property, or \<open>null\<close>.\<close>

definition recordTransition ::
    "string \<Rightarrow> step option \<Rightarrow> (step \<times> nat) option \<Rightarrow> nat \<Rightarrow> int \<Rightarrow> app \<Rightarrow> app" where
  "recordTransition act fromStep toStep flowLength now st =
     st\<lparr>session := (session st)
           \<lparr>transitions := transitions (session st) @
              [\<lparr>action = act,
                from_step_id = map_option step_id fromStep,
                from_step_index = currentStep st,
                to_step_id = map_option (\<lambda>t. step_id (fst t)) toStep,
                to_step_index = map_option snd toStep,
                step_count = flowLength,
                enteredAt = stepEnteredAt st,
                exitedAt = now,
                dwellMs = (case stepEnteredAt st of
                             None \<Rightarrow> None
                           | Some e \<Rightarrow> if e = 0 then None else Some (now - e))\<rparr>]\<rparr>\<rparr>"

text \<open>\<open>flow[i] ? { ...flow[i], index: i } : null\<close>.\<close>

definition step_at :: "step list \<Rightarrow> nat \<Rightarrow> (step \<times> nat) option" where
  "step_at flow i = (if i < length flow then Some (flow ! i, i) else None)"

datatype error = TypeError

text \<open>
  The click handler of the Continue button. The first reading of the clock is the one of
  \<open>recordTransition\<close>, the second the one of \<open>renderStep\<close>. Past the end of the flow
  \<open>flow[currentStep]\<close> is \<open>undefined\<close> and \<open>isStepComplete\<close> throws on \<open>stepObj.required\<close>.
\<close>

definition nextBtn_click :: "condition \<Rightarrow> int \<Rightarrow> int \<Rightarrow> app \<Rightarrow> error + app" where
  "nextBtn_click cond now1 now2 st =
     (let flow = computeFlow (answers st)
      in if length flow \<le> currentStep st then Inl TypeError
         else
           let stepObj = flow ! currentStep st
           in if \<not> isStepComplete stepObj (answers st) then
                Inr (st\<lparr>alerts := alerts st @ [''Please complete the required fields to continue.'']\<rparr>)
              else
                let nextIndex = currentStep st + 1;
                    st1 = recordTransition ''next'' (Some stepObj) (step_at flow nextIndex) (length flow) now1 st
                in Inr (renderStep cond now2 (st1\<lparr>currentStep := nextIndex\<rparr>)))"

definition backBtn_click :: "condition \<Rightarrow> int \<Rightarrow> int \<Rightarrow> app \<Rightarrow> app" where
  "backBtn_click cond now1 now2 st =
     (if currentStep st \<le> 0 then st
      else
        let flow = computeFlow (answers st);
            prevIndex = currentStep st - 1;
            st1 = recordTransition ''back'' (map_option fst (step_at flow (currentStep st)))
                    (step_at flow prevIndex) (length flow) now1 st
        in renderStep cond now2 (st1\<lparr>currentStep := prevIndex\<rparr>))"

definition startBtn_click :: "condition \<Rightarrow> int \<Rightarrow> int \<Rightarrow> app \<Rightarrow> app" where
  "startBtn_click cond now1 now2 st =
     (let a = setAnswer ''r1_msg'' []
                (setAnswer ''r1_amt'' ''50''
                  (setAnswer ''r1_qty'' ''1''
                    (setAnswer ''design'' ''confetti''
                      (setAnswer ''design_category'' ''All'' (answers st)))))
      in renderStep cond now2
           (st\<lparr>session := (session st)\<lparr>startedAt := Some now1\<rparr>,
               screen := ''checkoutScreen'',
               answers := a,
               currentInputMethod := Str ''standard'',
               currentStep := 0\<rparr>))"

subsection \<open>Survey\<close>

text \<open>
  What \<open>collectSurvey\<close> reads from the page: the elements carrying \<open>data-tlx\<close>, in
  document order, each with its value, and for each radio group the value of the checked
  radio, if one is checked.
\<close>

record survey_form =
  tlx_inputs :: "(string \<times> string) list"
  likert_checked :: "string \<rightharpoonup> string"

definition tlxIds :: "string list" where
  "tlxIds = [''tlx_mental'', ''tlx_physical'', ''tlx_temporal'', ''tlx_performance'', ''tlx_effort'',
             ''tlx_frustration'']"

definition likertIds :: "string list" where
  "likertIds = [''umux_req'', ''umux_easy'', ''peffort'', ''trust'', ''control'', ''satisfaction'']"

definition collectSurvey :: "survey_form \<Rightarrow> (string \<rightharpoonup> sval)" where
  "collectSurvey form =
     foldl (\<lambda>out i. out(i \<mapsto> (case likert_checked form i of
                                  None \<Rightarrow> SNull
                                | Some v \<Rightarrow> SNum (js_Number v))))
       (foldl (\<lambda>out kv. out(fst kv \<mapsto> SNum (js_Number (snd kv)))) Map.empty (tlx_inputs form))
       likertIds"

text \<open>\<open>typeof v === "number"\<close> and the truthiness of a survey answer.\<close>

definition is_number :: "sval option \<Rightarrow> bool" where
  "is_number v = (case v of Some (SNum n) \<Rightarrow> True | _ \<Rightarrow> False)"

definition sval_truthy :: "sval option \<Rightarrow> bool" where
  "sval_truthy v =
     (case v of
        Some (SNum (Fin q)) \<Rightarrow> q \<noteq> 0
      | Some (SNum PInf) \<Rightarrow> True
      | Some (SNum NInf) \<Rightarrow> True
      | _ \<Rightarrow> False)"

definition validateSurvey :: "(string \<rightharpoonup> sval) \<Rightarrow> bool" where
  "validateSurvey s =
     (if \<not> list_all (\<lambda>i. is_number (s i)) tlxIds then False
      else if \<not> list_all (\<lambda>i. sval_truthy (s i)) likertIds then False
      else True)"

text \<open>\<open>writeFinal\<close>: the document is added, or the write fails and the status line says so.\<close>

definition writeFinal :: "condition \<Rightarrow> bool \<Rightarrow> int \<Rightarrow> app \<Rightarrow> app" where
  "writeFinal cond write_ok ts st =
     (if write_ok then
        st\<lparr>study_events := study_events st @
             [\<lparr>ev_condition = cond, ev_session = session st, ev_answers = answers st, ev_ts = ts\<rparr>]\<rparr>
      else st\<lparr>surveyStatus := ''Upload failed. Please try again.''\<rparr>)"

definition onSubmitSurvey :: "condition \<Rightarrow> survey_form \<Rightarrow> bool \<Rightarrow> int \<Rightarrow> int \<Rightarrow> app \<Rightarrow> app" where
  "onSubmitSurvey cond form write_ok now ts st =
     (let st0 = st\<lparr>surveyStatus := []\<rparr>;
          s = collectSurvey form
      in if \<not> validateSurvey s then
           st0\<lparr>surveyStatus := ''Please answer all questions before submitting.''\<rparr>
         else
           let st1 = st0\<lparr>session := (session st0)\<lparr>survey := s, surveySubmittedAt := Some now\<rparr>\<rparr>;
               st2 = writeFinal cond write_ok ts st1
           in st2\<lparr>surveyStatus := ''Submitted. Thank you!'', submitDisabled := True\<rparr>)"

text \<open>A form with the six sliders at 10 and all Likert items but the last answered.\<close>

definition example_form :: survey_form where
  "example_form =
     \<lparr>tlx_inputs = [(''tlx_mental'', ''10''), (''tlx_physical'', ''10''), (''tlx_temporal'', ''10''),
                    (''tlx_performance'', ''10''), (''tlx_effort'', ''10''), (''tlx_frustration'', ''10'')],
      likert_checked = [''umux_req'' \<mapsto> ''5'', ''umux_easy'' \<mapsto> ''6'', ''peffort'' \<mapsto> ''2'',
                        ''trust'' \<mapsto> ''7'', ''control'' \<mapsto> ''4'']\<rparr>"

subsection \<open>Runs of the page\<close>

text \<open>
  What can happen to the page, one event after the other: the three buttons of the
  checkout, each with the readings of the clock that its handler takes; the survey's
  submit button; and the pieces that the handlers wired to a rendered step are made of
  (a call of \<open>setAnswer\<close>, a refresh of the preview, a free-form input applied to the
  current step, the choice of an input method). An exception thrown by a handler leaves
  the state as the handler found it.
\<close>

datatype event =
    Start int int
  | Next int int
  | Back int int
  | Answer string string
  | Refresh
  | Freeform string
  | Method string
  | Submit survey_form bool int int

definition fire :: "condition \<Rightarrow> event \<Rightarrow> app \<Rightarrow> app" where
  "fire cond ev st =
     (case ev of
        Start now1 now2 \<Rightarrow> startBtn_click cond now1 now2 st
      | Next now1 now2 \<Rightarrow> (case nextBtn_click cond now1 now2 st of Inl e \<Rightarrow> st | Inr st' \<Rightarrow> st')
      | Back now1 now2 \<Rightarrow> backBtn_click cond now1 now2 st
      | Answer k v \<Rightarrow> st\<lparr>answers := setAnswer k v (answers st)\<rparr>
      | Refresh \<Rightarrow> st\<lparr>answers := refreshPreview (answers st)\<rparr>
      | Freeform raw \<Rightarrow>
          (if currentStep st < length (computeFlow (answers st)) then
             st\<lparr>answers := applyFreeformToStep (computeFlow (answers st) ! currentStep st) raw (answers st)\<rparr>
           else st)
      | Method m \<Rightarrow>
          (if currentStep st < length (computeFlow (answers st)) then
             st\<lparr>currentInputMethod := Str (or_else (Some m) ''standard''),
                session := (session st)
                  \<lparr>input_method_by_step := (input_method_by_step (session st))
                     (step_id (computeFlow (answers st) ! currentStep st) \<mapsto> Str (or_else (Some m) ''standard''))\<rparr>\<rparr>
           else st)
      | Submit form write_ok now ts \<Rightarrow> onSubmitSurvey cond form write_ok now ts st)"

definition run :: "condition \<Rightarrow> event list \<Rightarrow> app \<Rightarrow> app" where
  "run cond evs st = foldl (\<lambda>s ev. fire cond ev s) st evs"

text \<open>The readings of the clock that an event takes, in the order in which it takes them.\<close>

definition event_times :: "event \<Rightarrow> int list" where
  "event_times ev =
     (case ev of
        Start now1 now2 \<Rightarrow> [now1, now2]
      | Next now1 now2 \<Rightarrow> [now1, now2]
      | Back now1 now2 \<Rightarrow> [now1, now2]
      | Submit form write_ok now ts \<Rightarrow> [now, ts]
      | _ \<Rightarrow> [])"

text \<open>A clock that shows a time after the epoch and is never set back.\<close>

definition clock_ok :: "event list \<Rightarrow> bool" where
  "clock_ok evs \<longleftrightarrow> sorted (0 # concat (map event_times evs)) \<and> 0 \<notin> set (concat (map event_times evs))"

text \<open>A click that navigates: Continue on a complete step, Back from any step but the
  first.\<close>

definition navigates :: "event \<Rightarrow> app \<Rightarrow> bool" where
  "navigates ev st =
     (case ev of
        Next now1 now2 \<Rightarrow>
          currentStep st < length (computeFlow (answers st))
          \<and> isStepComplete (computeFlow (answers st) ! currentStep st) (answers st)
      | Back now1 now2 \<Rightarrow> 0 < currentStep st
      | _ \<Rightarrow> False)"

text \<open>A dwell time is not negative, and is \<open>null\<close> only on an entry without entry time.\<close>

definition dwell_ok :: "transition \<Rightarrow> bool" where
  "dwell_ok tr = (case dwellMs tr of Some d \<Rightarrow> 0 \<le> d | None \<Rightarrow> enteredAt tr = None)"

text \<open>The state of the log and of the entry time when the clock has shown \<open>t\<close>.\<close>

definition log_inv :: "int \<Rightarrow> app \<Rightarrow> bool" where
  "log_inv t st \<longleftrightarrow>
     (case stepEnteredAt st of None \<Rightarrow> True | Some e \<Rightarrow> 0 < e \<and> e \<le> t)
     \<and> list_all dwell_ok (transitions (session st))"

subsection \<open>Reference notions for the properties\<close>

text \<open>The number that a string of decimal digits, or a minus sign followed by one, denotes.\<close>

fun decimal_acc :: "nat \<Rightarrow> string \<Rightarrow> nat" where
  "decimal_acc n [] = n"
| "decimal_acc n (c # cs) = decimal_acc (10 * n + (case digit_value c of None \<Rightarrow> 0 | Some d \<Rightarrow> d)) cs"

definition signed_decimal :: "string \<Rightarrow> int" where
  "signed_decimal m =
     (case m of
        [] \<Rightarrow> 0
      | c # cs \<Rightarrow> if c = CHR ''-'' then - int (decimal_acc 0 cs) else int (decimal_acc 0 m))"

text \<open>
  The completion rule of the specification for the quantity step: the stored value parses
  to an integer greater than or equal to 1.
\<close>

definition spec_quantity_complete :: "answer_store \<Rightarrow> bool" where
  "spec_quantity_complete a =
     (case Number_of (a ''r1_qty'') of
        Fin q \<Rightarrow> of_int \<lfloor>q\<rfloor> = q \<and> 1 \<le> q
      | _ \<Rightarrow> False)"

text \<open>
  The result of \<open>parseSpokenNumberClosest\<close> as the specification words it: the first digit
  sequence (with the minus sign the pattern allows before it) clamped to the range, else
  the value of the first number word that occurs, clamped, else the clamped fallback.
\<close>

definition clamp_to :: "int \<Rightarrow> int \<Rightarrow> int \<Rightarrow> int" where
  "clamp_to mn mx z = min mx (max mn z)"

definition spec_parseSpokenNumber :: "string \<Rightarrow> int \<Rightarrow> int \<Rightarrow> jsnum \<Rightarrow> int" where
  "spec_parseSpokenNumber raw mn mx fallback =
     (case digitMatch (toLowerCase raw) of
        Some m \<Rightarrow> clamp_to mn mx (signed_decimal m)
      | None \<Rightarrow>
         (case find (\<lambda>kv. js_includes (toLowerCase raw) (fst kv)) number_words of
            Some kv \<Rightarrow> clamp_to mn mx (int (snd kv))
          | None \<Rightarrow> clampInt fallback mn mx))"





text \<open>
  A free-form input that matches no valid option or number of the step, in the words of
  the specification: no option is the best match on a choice or design step, the input
  holds neither a digit nor a number word on a quantity or amount step. Every text is a
  valid message, and an informational step has no valid input.
\<close>

definition freeform_miss :: "step \<Rightarrow> string \<Rightarrow> bool" where
  "freeform_miss stepObj raw =
     (case kind stepObj of
        Choice \<Rightarrow>
          bestOptionMatch (normalizeText raw) (case options stepObj of None \<Rightarrow> [] | Some os \<Rightarrow> os) = None
      | Design \<Rightarrow> bestOptionMatch (normalizeText raw) (map d_label CARD_DESIGNS) = None
      | Number \<Rightarrow>
          digitMatch (toLowerCase raw) = None
          \<and> find (\<lambda>kv. js_includes (toLowerCase raw) (fst kv)) number_words = None
      | Amount \<Rightarrow>
          digitMatch (toLowerCase raw) = None
          \<and> find (\<lambda>kv. js_includes (toLowerCase raw) (fst kv)) number_words = None
      | Text \<Rightarrow> False
      | Info \<Rightarrow> True)"

text \<open>The answers once the checkout has started and the quantity 15 has been typed into
  the quantity field.\<close>

definition answers_qty_15 :: answer_store where
  "answers_qty_15 =
     [''design_category'' \<mapsto> ''All'', ''design'' \<mapsto> ''confetti'', ''r1_qty'' \<mapsto> ''15'',
      ''r1_amt'' \<mapsto> ''50'', ''r1_msg'' \<mapsto> []]"

section \<open>Properties\<close>

subsection \<open>Rounding to a double\<close>

text \<open>A value that a double can hold is not changed by the rounding, and a value of
  \<open>2 ^ 1024\<close> or more becomes \<open>+\<infinity>\<close>.\<close>

lemma round_half_even_of_int: "round_half_even (of_int n) = n"
  by (simp add: round_half_even_def)

lemma round_half_even_ge:
  assumes "of_int n \<le> q"
  shows "n \<le> round_half_even q"
proof -
  from assms have "n \<le> \<lfloor>q\<rfloor>" by (simp add: le_floor_iff)
  then show ?thesis by (simp add: round_half_even_def Let_def)
qed

lemma powi_nat: "0 \<le> k \<Longrightarrow> (2::rat) powi k = 2 ^ nat k"
  by (simp add: power_int_def)

lemma floor_log2_bounds:
  assumes "0 < a"
  shows "2 powi (floor_log2 a) \<le> a" and "a < 2 powi (floor_log2 a + 1)"
proof -
  obtain p q where pq: "quotient_of a = (p, q)" by (cases "quotient_of a")
  then have q: "0 < q" and a: "a = of_int p / of_int q"
    by (auto dest: quotient_of_denom_pos quotient_of_div)
  from assms a q have p: "0 < p" by (simp add: zero_less_divide_iff)
  define bp bq where "bp = bitlen p" and "bq = bitlen q"
  have bp1: "1 \<le> bp" and bq1: "1 \<le> bq"
    using p q bitlen_eq_zero_iff[of p] bitlen_eq_zero_iff[of q] bitlen_nonneg[of p] bitlen_nonneg[of q]
    by (auto simp: bp_def bq_def)
  have plo: "(2::rat) powi (bp - 1) \<le> of_int p" and phi: "of_int p < (2::rat) powi bp"
   and qlo: "(2::rat) powi (bq - 1) \<le> of_int q" and qhi: "of_int q < (2::rat) powi bq"
  proof -
    have "(2::int) ^ nat (bp - 1) \<le> p" "p < 2 ^ nat bp" "(2::int) ^ nat (bq - 1) \<le> q" "q < 2 ^ nat bq"
      using bitlen_bounds[OF p] bitlen_bounds[OF q] by (auto simp: bp_def bq_def)
    then have "(of_int (2 ^ nat (bp - 1)) :: rat) \<le> of_int p" "(of_int p :: rat) < of_int (2 ^ nat bp)"
         "(of_int (2 ^ nat (bq - 1)) :: rat) \<le> of_int q" "(of_int q :: rat) < of_int (2 ^ nat bq)"
      by (simp_all only: of_int_le_iff of_int_less_iff)
    then show "(2::rat) powi (bp - 1) \<le> of_int p" "of_int p < (2::rat) powi bp"
      "(2::rat) powi (bq - 1) \<le> of_int q" "of_int q < (2::rat) powi bq"
      using bp1 bq1 by (simp_all add: powi_nat)
  qed
  have qpos: "(0::rat) < of_int q" using q by simp
  have hi: "a < 2 powi (bp - bq + 1)"
  proof -
    have "a * of_int q = of_int p" using a qpos by simp
    also have "\<dots> < 2 powi bp" by (rule phi)
    also have "\<dots> = 2 powi (bp - bq + 1) * 2 powi (bq - 1)"
      by (simp flip: power_int_add)
    also have "\<dots> \<le> 2 powi (bp - bq + 1) * of_int q"
      using qlo by (simp add: mult_left_mono)
    finally show ?thesis using qpos by simp
  qed
  have lo: "2 powi (bp - bq - 1) \<le> a"
  proof -
    have "(2::rat) powi (bp - bq - 1) * of_int q \<le> 2 powi (bp - bq - 1) * 2 powi bq"
      using qhi by (simp add: mult_left_mono)
    also have "\<dots> = 2 powi (bp - 1)" by (simp flip: power_int_add)
    also have "\<dots> \<le> of_int p" by (rule plo)
    also have "\<dots> = a * of_int q" using a qpos by simp
    finally show ?thesis using qpos by simp
  qed
  show "2 powi (floor_log2 a) \<le> a"
    using lo by (simp add: floor_log2_def pq Let_def bp_def bq_def)
  show "a < 2 powi (floor_log2 a + 1)"
    using hi by (auto simp: floor_log2_def pq Let_def bp_def bq_def not_le)
qed

lemma powi2_less_imp:
  assumes "(2::rat) powi m < 2 powi n"
  shows "m < n"
proof (rule ccontr)
  assume "\<not> m < n"
  then have "n \<le> m" by simp
  then have "(2::rat) powi n \<le> 2 powi m" by (rule power_int_increasing) simp
  with assms show False by simp
qed

lemma to_double_exact:
  assumes m: "\<bar>m\<bar> < 2 ^ 53" and j: "- 1074 \<le> j"
      and fin: "\<bar>of_int m * 2 powi j\<bar> < (2::rat) ^ 1024"
  shows "to_double (of_int m * 2 powi j) = Fin (of_int m * 2 powi j)"
proof (cases "m = 0")
  case True
  then show ?thesis by (simp add: to_double_def)
next
  case False
  define q :: rat where "q = of_int m * 2 powi j"
  define a where "a = \<bar>q\<bar>"
  have a_eq: "a = of_int \<bar>m\<bar> * 2 powi j" by (simp add: a_def q_def abs_mult)
  have apos: "0 < a" using False by (simp add: a_eq)
  have qnz: "q \<noteq> 0" using apos by (auto simp: a_def)
  define e where "e = max (floor_log2 a) (- 1022)"
  have "(of_int \<bar>m\<bar> :: rat) < of_int (2 ^ 53)" using m by (simp only: of_int_less_iff)
  then have "a < 2 ^ 53 * 2 powi j" by (simp add: a_eq)
  also have "\<dots> = 2 powi (53 + j)" by (simp add: power_int_add)
  finally have "2 powi (floor_log2 a) < (2::rat) powi (53 + j)"
    using floor_log2_bounds(1)[OF apos] by simp
  then have "floor_log2 a < 53 + j" by (rule powi2_less_imp)
  then have d: "0 \<le> j - (e - 52)" using j by (simp add: e_def)
  have "a / 2 powi (e - 52) = of_int \<bar>m\<bar> * 2 powi (j - (e - 52))"
    by (simp add: a_eq power_int_diff)
  also have "\<dots> = of_int (\<bar>m\<bar> * 2 ^ nat (j - (e - 52)))"
    using d by (simp add: powi_nat)
  finally have quot: "a / 2 powi (e - 52) = of_int (\<bar>m\<bar> * 2 ^ nat (j - (e - 52)))" .
  have r: "of_int (round_half_even (a / 2 powi (e - 52))) * 2 powi (e - 52) = a"
  proof -
    have "of_int (round_half_even (a / 2 powi (e - 52))) * 2 powi (e - 52)
        = (a / 2 powi (e - 52)) * 2 powi (e - 52)"
      by (simp only: quot round_half_even_of_int)
    also have "\<dots> = a" by simp
    finally show ?thesis .
  qed
  have "\<not> 2 ^ 1024 \<le> a" using fin by (simp add: a_def q_def)
  then have "to_double q = Fin (if 0 < q then a else - a)"
    using qnz r by (simp add: to_double_def Let_def a_def[symmetric] e_def[symmetric])
  also have "(if 0 < q then a else - a) = q" by (simp add: a_def)
  finally show ?thesis by (simp add: q_def)
qed

lemma to_double_int: "\<bar>n\<bar> < 2 ^ 53 \<Longrightarrow> to_double (of_int n) = Fin (of_int n)"
  using to_double_exact[of n 0] less_le_trans[of "\<bar>of_int n :: rat\<bar>" "2 ^ 53" "2 ^ 1024"]
  by (simp flip: of_int_abs)

lemma to_double_overflow:
  assumes "2 ^ 1024 \<le> q"
  shows "to_double q = PInf"
proof -
  have qpos: "0 < q" using assms by (rule less_le_trans[rotated]) simp
  define e where "e = floor_log2 q"
  have "(2::rat) powi 1024 \<le> q" using assms by simp
  also have "q < 2 powi (e + 1)" unfolding e_def by (rule floor_log2_bounds(2)[OF qpos])
  finally have e: "1024 \<le> e" using powi2_less_imp by fastforce
  have "(of_int (2 ^ 52) :: rat) = 2 powi e / 2 powi (e - 52)" by (simp add: power_int_diff)
  also have "\<dots> \<le> q / 2 powi (e - 52)"
    using floor_log2_bounds(1)[OF qpos] by (simp add: e_def divide_right_mono)
  finally have "2 ^ 52 \<le> round_half_even (q / 2 powi (e - 52))" by (rule round_half_even_ge)
  then have "(of_int (2 ^ 52) :: rat) \<le> of_int (round_half_even (q / 2 powi (e - 52)))"
    by (simp only: of_int_le_iff)
  then have A: "(of_int (2 ^ 52) :: rat) * 2 powi (e - 52)
      \<le> of_int (round_half_even (q / 2 powi (e - 52))) * 2 powi (e - 52)"
    by (rule mult_right_mono) simp
  have B: "(of_int (2 ^ 52) :: rat) * 2 powi (e - 52) = 2 powi e" by (simp add: power_int_diff)
  have "(2::rat) powi 1024 \<le> 2 powi e" using e by (intro power_int_increasing) simp_all
  then have "(2::rat) powi 1024 \<le> of_int (2 ^ 52) * 2 powi (e - 52)" by (simp only: B)
  then have "(2::rat) powi 1024 \<le> of_int (round_half_even (q / 2 powi (e - 52))) * 2 powi (e - 52)"
    using A by (rule order_trans)
  then have "(2::rat) ^ 1024 \<le> of_int (round_half_even (q / 2 powi (e - 52))) * 2 powi (e - 52)"
    by simp
  then show ?thesis using qpos e
    by (simp add: to_double_def Let_def e_def[symmetric] max_def)
qed


lemma to_double_numeral:
  "(numeral k :: int) < 2 ^ 53 \<Longrightarrow> to_double (numeral k) = Fin (numeral k)"
  using to_double_int[of "numeral k"] by simp

lemma to_double_1: "to_double 1 = Fin 1"
  using to_double_int[of 1] by simp

lemma js_Number_1: "js_Number ''1'' = Fin 1"
  by (simp add: js_Number_def js_trim_def is_space_def parse_nondecimal_def parse_decimal_def
      parse_unsigned_def parse_unsigned_decimal_def is_digit_def digit_value_def parse_exponent_def
      to_double_1)

lemma js_Number_50: "js_Number ''50'' = Fin 50"
  by (simp add: js_Number_def js_trim_def is_space_def parse_nondecimal_def parse_decimal_def
      parse_unsigned_def parse_unsigned_decimal_def is_digit_def digit_value_def parse_exponent_def
      parse_digits_def to_double_numeral)

lemma Math_round_of_int: "Math_round (Fin (of_int n)) = Some n"
proof -
  have "\<lfloor>(of_int n :: rat) + 1/2\<rfloor> = n" by (rule floor_unique) simp_all
  then show ?thesis by (simp add: Math_round_def)
qed

lemma clampInt_of_int: "clampInt (Fin (of_int n)) mn mx = min mx (max mn n)"
  by (simp add: clampInt_def Math_round_of_int)

lemma clampInt_1: "clampInt (Fin 1) mn mx = min mx (max mn 1)"
  using clampInt_of_int[of 1] by simp

lemma clampInt_numeral: "clampInt (Fin (numeral k)) mn mx = min mx (max mn (numeral k))"
  using clampInt_of_int[of "numeral k"] by simp

subsection \<open>\<open>Number\<close> on digit strings\<close>

lemma is_digit_cases:
  "is_digit c \<longleftrightarrow> c = CHR ''0'' \<or> c = CHR ''1'' \<or> c = CHR ''2'' \<or> c = CHR ''3'' \<or> c = CHR ''4''
     \<or> c = CHR ''5'' \<or> c = CHR ''6'' \<or> c = CHR ''7'' \<or> c = CHR ''8'' \<or> c = CHR ''9''"
  by (simp add: is_digit_def)

lemma is_digit_value: "is_digit c \<Longrightarrow> \<exists>d. digit_value c = Some d \<and> d < 10"
  unfolding is_digit_cases by (elim disjE) (simp_all add: digit_value_def)

lemma is_digit_not_space: "is_digit c \<Longrightarrow> \<not> is_space c"
  unfolding is_digit_cases by (elim disjE) (simp_all add: is_space_def)

lemma is_digit_not_other: "is_digit c \<Longrightarrow> c \<notin> set ''xXoObBI-+''"
  unfolding is_digit_cases by (elim disjE) simp_all

lemma radix_digits_decimal:
  "list_all is_digit ds \<Longrightarrow> radix_digits 10 acc ds = Some (decimal_acc acc ds)"
proof (induction ds arbitrary: acc)
  case Nil
  then show ?case by simp
next
  case (Cons c ds)
  then obtain d where "digit_value c = Some d" "d < 10" using is_digit_value by auto
  with Cons show ?case by simp
qed

lemma dropWhile_none: "\<forall>x \<in> set xs. \<not> P x \<Longrightarrow> dropWhile P xs = xs"
  by (cases xs) simp_all

lemma js_trim_no_space: "\<forall>c \<in> set s. \<not> is_space c \<Longrightarrow> js_trim s = s"
  by (simp add: js_trim_def dropWhile_none)

lemma parse_unsigned_digits:
  assumes "ds \<noteq> []" and "list_all is_digit ds"
  shows "parse_unsigned ds = to_double (of_nat (decimal_acc 0 ds))"
proof -
  have tw: "takeWhile is_digit ds = ds" and dw: "dropWhile is_digit ds = []"
    using assms(2) by (simp_all add: list_all_iff)
  obtain c cs where ds: "ds = c # cs" using assms(1) by (cases ds) auto
  then have "is_digit c" using assms(2) by simp
  then have "c \<noteq> CHR ''I''" using is_digit_not_other by fastforce
  then have ninf: "ds \<noteq> ''Infinity''" using ds by auto
  have "parse_unsigned_decimal ds = Some (of_nat (decimal_acc 0 ds))"
    using assms by (simp add: parse_unsigned_decimal_def tw dw radix_digits_decimal parse_exponent_def)
  then show ?thesis using ninf by (simp add: parse_unsigned_def)
qed

lemma parse_nondecimal_digits:
  assumes "list_all is_digit ds"
  shows "parse_nondecimal (c # ds) = None"
proof (cases ds)
  case Nil
  then show ?thesis by (simp add: parse_nondecimal_def)
next
  case (Cons x r)
  then have "is_digit x" using assms by simp
  then have "x \<notin> set ''xXoObB''" using is_digit_not_other by fastforce
  then show ?thesis using Cons by (simp add: parse_nondecimal_def)
qed

lemma to_double_minus: "to_double (- q) = js_neg (to_double q)"
  by (simp add: to_double_def js_neg_def Let_def)

lemma js_Number_digits:
  assumes "ds \<noteq> []" and "list_all is_digit ds"
  shows "js_Number ds = to_double (of_int (signed_decimal ds))"
proof -
  obtain c cs where ds: "ds = c # cs" using assms(1) by (cases ds) auto
  have c: "is_digit c" and cs: "list_all is_digit cs" using assms(2) ds by simp_all
  have "\<forall>x \<in> set ds. \<not> is_space x" using assms(2) is_digit_not_space by (auto simp: list_all_iff)
  then have trim: "js_trim ds = ds" by (rule js_trim_no_space)
  have sign: "c \<noteq> CHR ''-''" "c \<noteq> CHR ''+''" using c is_digit_not_other by fastforce+
  have "parse_nondecimal ds = None" unfolding ds using cs by (rule parse_nondecimal_digits)
  moreover have "parse_decimal ds = parse_unsigned ds" using sign by (simp add: parse_decimal_def ds)
  ultimately have "js_Number ds = to_double (of_nat (decimal_acc 0 ds))"
    using assms by (simp add: js_Number_def trim parse_unsigned_digits)
  also have "of_nat (decimal_acc 0 ds) = (of_int (signed_decimal ds) :: rat)"
    using sign by (simp add: signed_decimal_def ds)
  finally show ?thesis .
qed

lemma js_Number_minus_digits:
  assumes "ds \<noteq> []" and "list_all is_digit ds"
  shows "js_Number (CHR ''-'' # ds) = to_double (of_int (signed_decimal (CHR ''-'' # ds)))"
proof -
  have "\<not> is_space (CHR ''-'')" by (simp add: is_space_def)
  then have "\<forall>x \<in> set (CHR ''-'' # ds). \<not> is_space x"
    using assms(2) is_digit_not_space by (auto simp: list_all_iff)
  then have trim: "js_trim (CHR ''-'' # ds) = CHR ''-'' # ds" by (rule js_trim_no_space)
  have "parse_nondecimal (CHR ''-'' # ds) = None"
    by (simp add: parse_nondecimal_def split: list.splits)
  moreover have "parse_decimal (CHR ''-'' # ds) = js_neg (parse_unsigned ds)"
    by (simp add: parse_decimal_def)
  ultimately have "js_Number (CHR ''-'' # ds) = js_neg (to_double (of_nat (decimal_acc 0 ds)))"
    using assms by (simp add: js_Number_def trim parse_unsigned_digits)
  then show ?thesis by (simp add: signed_decimal_def to_double_minus)
qed

lemma digitMatch_shape:
  "digitMatch s = Some m \<Longrightarrow>
     (m \<noteq> [] \<and> list_all is_digit m) \<or> (\<exists>ds. m = CHR ''-'' # ds \<and> ds \<noteq> [] \<and> list_all is_digit ds)"
proof (induction s)
  case Nil
  then show ?case by simp
next
  case (Cons c cs)
  show ?case
  proof (cases "is_digit c")
    case True
    with Cons.prems have "m = c # takeWhile is_digit cs" by simp
    with True show ?thesis by (auto simp: list_all_iff dest: set_takeWhileD)
  next
    case False
    show ?thesis
    proof (cases "c = CHR ''-'' \<and> (case cs of [] \<Rightarrow> False | d # _ \<Rightarrow> is_digit d)")
      case True
      with False Cons.prems have m: "m = CHR ''-'' # takeWhile is_digit cs" by simp
      from True obtain d r where "cs = d # r" "is_digit d" by (cases cs) auto
      then have "takeWhile is_digit cs \<noteq> []" by simp
      with m show ?thesis by (auto simp: list_all_iff dest: set_takeWhileD)
    next
      case F2: False
      with False Cons.prems have "digitMatch cs = Some m" by (simp split: if_splits)
      then show ?thesis by (rule Cons.IH)
    qed
  qed
qed

lemma js_Number_digitMatch:
  "digitMatch s = Some m \<Longrightarrow> js_Number m = to_double (of_int (signed_decimal m))"
  using digitMatch_shape[of s m] js_Number_digits js_Number_minus_digits by blast

subsection \<open>Flow builder\<close>

lemma baseSteps_ids:
  "map step_id baseSteps =
     [''card_type'', ''variant'', ''expiry'', ''design'', ''activation'', ''r1_qty'', ''r1_amt'', ''r1_msg'']"
  by (simp add: baseSteps_def mk_step_def)

lemma conditional_ids:
  "map step_id (getConditionalSteps a) =
     (if a ''card_type'' = Some ''Digital'' then [''digital_delivery'', ''digital_identifier'']
      else [''packaging'', ''shipping_method'', ''shipping_address''])"
  by (simp add: getConditionalSteps_def mk_step_def)

text \<open>
  Claim C1. For every answer store, the identifiers of \<open>computeFlow\<close> are the fixed prefix,
  then the digital segment exactly when the \<open>card_type\<close> answer is the string \<open>Digital\<close>
  and the physical segment otherwise (also when \<open>card_type\<close> is absent), then \<open>payment\<close>;
  and a flow computed with \<open>card_type = Digital\<close> contains no \<open>packaging\<close> step.
\<close>

theorem computeFlow_shape:
  "map step_id (computeFlow a) =
     [''card_type'', ''variant'', ''expiry'', ''design'', ''activation'', ''r1_qty'', ''r1_amt'', ''r1_msg'']
     @ (if a ''card_type'' = Some ''Digital'' then [''digital_delivery'', ''digital_identifier'']
        else [''packaging'', ''shipping_method'', ''shipping_address''])
     @ [''payment'']
   \<and> (a ''card_type'' = Some ''Digital'' \<longrightarrow> ''packaging'' \<notin> set (map step_id (computeFlow a)))"
proof -
  have flow: "map step_id (computeFlow a) =
      map step_id baseSteps @ map step_id (getConditionalSteps a) @ [''payment'']"
    by (simp add: computeFlow_def paymentStep_def mk_step_def)
  show ?thesis
    unfolding flow baseSteps_ids conditional_ids by simp
qed

theorem computeFlow_shape_witness:
  "map step_id (computeFlow (Map.empty(''card_type'' \<mapsto> ''Digital''))) =
     [''card_type'', ''variant'', ''expiry'', ''design'', ''activation'', ''r1_qty'', ''r1_amt'', ''r1_msg'',
      ''digital_delivery'', ''digital_identifier'', ''payment'']
   \<and> (Map.empty(''card_type'' \<mapsto> ''Digital'')) ''card_type'' = Some ''Digital''
   \<and> ''packaging'' \<notin> set (map step_id (computeFlow (Map.empty(''card_type'' \<mapsto> ''Digital''))))"
  using computeFlow_shape [of "Map.empty(''card_type'' \<mapsto> ''Digital'')"] by simp

subsection \<open>Pricing\<close>

text \<open>
  Claim C5. With \<open>card_type = Physical\<close>, quantity 1, amount 50, no expiry, box
  packaging and expedited shipping, \<open>computePrice\<close> returns 72 (50 + 6 + 4 + 12).
\<close>

theorem computePrice_example_2:
  "fst (computePrice
     (Map.empty(''card_type'' \<mapsto> ''Physical'', ''r1_qty'' \<mapsto> ''1'', ''r1_amt'' \<mapsto> ''50'',
        ''expiry'' \<mapsto> ''No expiry (higher price)'', ''packaging'' \<mapsto> ''Box packaging'',
        ''shipping_method'' \<mapsto> ''Expedited shipping''))) = 72"
  by (simp add: computePrice_def computeTotals_def ensureRecipient1Defaults_def setAnswer_def
      truthy_def Number_nullish_def js_Number_1 js_Number_50 clampInt_1 clampInt_numeral
      starts_def startsWith_def or_else_def)

subsection \<open>Switching the card type\<close>

lemma setAnswer_Digital_clears:
  "setAnswer ''card_type'' ''Digital'' a ''packaging'' = None
   \<and> setAnswer ''card_type'' ''Digital'' a ''shipping_method'' = None
   \<and> setAnswer ''card_type'' ''Digital'' a ''shipping_address'' = None
   \<and> setAnswer ''card_type'' ''Digital'' a ''card_type'' = Some ''Digital''"
  by (simp add: setAnswer_def)

lemma setAnswer_Digital_frame: "k \<notin> {''card_type'', ''packaging'', ''shipping_method'', ''shipping_address''}
          \<Longrightarrow> setAnswer ''card_type'' ''Digital'' a k = a k"
  by (simp add: setAnswer_def)

lemma setAnswer_Physical_clears:
  "setAnswer ''card_type'' ''Physical'' a ''digital_delivery'' = None
   \<and> setAnswer ''card_type'' ''Physical'' a ''digital_identifier'' = None
   \<and> setAnswer ''card_type'' ''Physical'' a ''card_type'' = Some ''Physical''"
  by (simp add: setAnswer_def)

lemma setAnswer_Physical_frame: "k \<notin> {''card_type'', ''digital_delivery'', ''digital_identifier''}
          \<Longrightarrow> setAnswer ''card_type'' ''Physical'' a k = a k"
  by (simp add: setAnswer_def)

text \<open>
  Claim C6. \<open>setAnswer("card_type", "Digital")\<close> removes the answers \<open>packaging\<close>,
  \<open>shipping_method\<close> and \<open>shipping_address\<close>, and \<open>setAnswer("card_type", "Physical")\<close>
  removes \<open>digital_delivery\<close> and \<open>digital_identifier\<close>; both set \<open>card_type\<close> to the
  given value and leave every other key as it was.
\<close>

theorem setAnswer_card_type_purges_other_branch:
  "setAnswer ''card_type'' ''Digital'' a ''packaging'' = None
   \<and> setAnswer ''card_type'' ''Digital'' a ''shipping_method'' = None
   \<and> setAnswer ''card_type'' ''Digital'' a ''shipping_address'' = None
   \<and> setAnswer ''card_type'' ''Digital'' a ''card_type'' = Some ''Digital''
   \<and> (\<forall>k. k \<notin> {''card_type'', ''packaging'', ''shipping_method'', ''shipping_address''}
          \<longrightarrow> setAnswer ''card_type'' ''Digital'' a k = a k)
   \<and> setAnswer ''card_type'' ''Physical'' a ''digital_delivery'' = None
   \<and> setAnswer ''card_type'' ''Physical'' a ''digital_identifier'' = None
   \<and> setAnswer ''card_type'' ''Physical'' a ''card_type'' = Some ''Physical''
   \<and> (\<forall>k. k \<notin> {''card_type'', ''digital_delivery'', ''digital_identifier''}
          \<longrightarrow> setAnswer ''card_type'' ''Physical'' a k = a k)"
proof -
  have d: "\<forall>k. k \<notin> {''card_type'', ''packaging'', ''shipping_method'', ''shipping_address''}
          \<longrightarrow> setAnswer ''card_type'' ''Digital'' a k = a k"
    using setAnswer_Digital_frame by blast
  have p: "\<forall>k. k \<notin> {''card_type'', ''digital_delivery'', ''digital_identifier''}
          \<longrightarrow> setAnswer ''card_type'' ''Physical'' a k = a k"
    using setAnswer_Physical_frame by blast
  from setAnswer_Digital_clears[of a] setAnswer_Physical_clears[of a] d p show ?thesis
    by (simp only: simp_thms)
qed

theorem setAnswer_card_type_purges_other_branch_witness:
  "''variant'' \<notin> {''card_type'', ''packaging'', ''shipping_method'', ''shipping_address''}
   \<and> setAnswer ''card_type'' ''Digital''
        (Map.empty(''variant'' \<mapsto> ''Reloadable'', ''packaging'' \<mapsto> ''Box packaging'')) ''variant''
      = Some ''Reloadable''
   \<and> setAnswer ''card_type'' ''Digital''
        (Map.empty(''variant'' \<mapsto> ''Reloadable'', ''packaging'' \<mapsto> ''Box packaging'')) ''packaging''
      = None
   \<and> ''variant'' \<notin> {''card_type'', ''digital_delivery'', ''digital_identifier''}
   \<and> setAnswer ''card_type'' ''Physical''
        (Map.empty(''variant'' \<mapsto> ''Reloadable'', ''packaging'' \<mapsto> ''Box packaging'')) ''variant''
      = Some ''Reloadable''"
proof -
  let ?a = "Map.empty(''variant'' \<mapsto> ''Reloadable'', ''packaging'' \<mapsto> ''Box packaging'')"
  note t = setAnswer_card_type_purges_other_branch [of ?a]
  have d: "''variant'' \<notin> {''card_type'', ''packaging'', ''shipping_method'', ''shipping_address''}"
    and p: "''variant'' \<notin> {''card_type'', ''digital_delivery'', ''digital_identifier''}"
    by simp_all
  have dall: "\<forall>k. k \<notin> {''card_type'', ''packaging'', ''shipping_method'', ''shipping_address''}
          \<longrightarrow> setAnswer ''card_type'' ''Digital'' ?a k = ?a k"
    using t by (elim conjE)
  have pall: "\<forall>k. k \<notin> {''card_type'', ''digital_delivery'', ''digital_identifier''}
          \<longrightarrow> setAnswer ''card_type'' ''Physical'' ?a k = ?a k"
    using t by (elim conjE)
  have 1: "setAnswer ''card_type'' ''Digital'' ?a ''variant'' = ?a ''variant''"
    using dall[rule_format, OF d] .
  have 2: "setAnswer ''card_type'' ''Physical'' ?a ''variant'' = ?a ''variant''"
    using pall[rule_format, OF p] .
  have 3: "setAnswer ''card_type'' ''Digital'' ?a ''packaging'' = None"
    using t by (elim conjE)
  show ?thesis unfolding 1 2 3 using d p by simp
qed

subsection \<open>Modality under condition C\<close>

lemma CONDITION_C_MAP_PHYSICAL_nonempty: "CONDITION_C_MAP_PHYSICAL k = Some v \<Longrightarrow> v \<noteq> []"
  by (auto simp: CONDITION_C_MAP_PHYSICAL_def split: if_splits)

lemma CONDITION_C_MAP_DIGITAL_nonempty: "CONDITION_C_MAP_DIGITAL k = Some v \<Longrightarrow> v \<noteq> []"
  by (auto simp: CONDITION_C_MAP_DIGITAL_def split: if_splits)

text \<open>No step of any flow is named like a member of \<open>Object.prototype\<close>.\<close>

lemma flow_ids_not_inherited:
  "s \<in> set (computeFlow a) \<Longrightarrow> step_id s \<notin> set Object_prototype_keys"
  by (auto simp: computeFlow_def baseSteps_def getConditionalSteps_def paymentStep_def mk_step_def
      Object_prototype_keys_def split: if_splits)

text \<open>
  Claim C7. Under condition C, the modality of a step identifier is the value the
  physical table holds for it when the \<open>card_type\<close> answer is \<open>Physical\<close>, and the value
  the digital table holds for it otherwise (also when \<open>card_type\<close> is unset); an identifier
  that the consulted table does not hold resolves to \<open>standard\<close>. Step identifiers are not
  names of members of \<open>Object.prototype\<close> (\<open>flow_ids_not_inherited\<close>).
\<close>

theorem resolveInputMethodForStep_condition_C:
  assumes "stepId \<notin> set Object_prototype_keys"
  shows "resolveInputMethodForStep CondC cur a stepId =
     Str (case (if a ''card_type'' = Some ''Physical'' then CONDITION_C_MAP_PHYSICAL
                else CONDITION_C_MAP_DIGITAL) stepId of
            Some m \<Rightarrow> m
          | None \<Rightarrow> ''standard'')"
  using assms CONDITION_C_MAP_PHYSICAL_nonempty[of stepId] CONDITION_C_MAP_DIGITAL_nonempty[of stepId]
  by (auto simp: resolveInputMethodForStep_def getConditionCMap_def js_get_def val_or_def
      split: option.splits)

theorem resolveInputMethodForStep_condition_C_witness:
  "''expiry'' \<notin> set Object_prototype_keys
   \<and> resolveInputMethodForStep CondC (Str ''voice'') (Map.empty(''card_type'' \<mapsto> ''Physical'')) ''expiry''
       = Str ''chat''
   \<and> resolveInputMethodForStep CondC (Str ''voice'') Map.empty ''expiry'' = Str ''standard''
   \<and> ''packaging'' \<notin> set Object_prototype_keys
   \<and> resolveInputMethodForStep CondC (Str ''voice'') Map.empty ''packaging'' = Str ''standard''"
proof -
  have e: "''expiry'' \<notin> set Object_prototype_keys" and p: "''packaging'' \<notin> set Object_prototype_keys"
    by (simp_all add: Object_prototype_keys_def)
  show ?thesis
    using e p
      resolveInputMethodForStep_condition_C [OF e, of "Str ''voice''" "Map.empty(''card_type'' \<mapsto> ''Physical'')"]
      resolveInputMethodForStep_condition_C [OF e, of "Str ''voice''" Map.empty]
      resolveInputMethodForStep_condition_C [OF p, of "Str ''voice''" Map.empty]
    by (simp add: CONDITION_C_MAP_PHYSICAL_def CONDITION_C_MAP_DIGITAL_def)
qed

subsection \<open>Survey\<close>

lemma collectSurvey_likert:
  "i \<in> set likertIds \<Longrightarrow>
   collectSurvey form i =
     Some (case likert_checked form i of None \<Rightarrow> SNull | Some v \<Rightarrow> SNum (js_Number v))"
  by (auto simp: collectSurvey_def likertIds_def)

lemma validateSurvey_unanswered:
  assumes "i \<in> set likertIds" and "likert_checked form i = None"
  shows "\<not> validateSurvey (collectSurvey form)"
proof -
  have "collectSurvey form i = Some SNull"
    using assms by (simp add: collectSurvey_likert)
  then have "\<not> sval_truthy (collectSurvey form i)" by (simp add: sval_truthy_def)
  with assms(1) have "\<not> list_all (\<lambda>i. sval_truthy (collectSurvey form i)) likertIds"
    by (auto simp: list_all_iff)
  then show ?thesis by (simp add: validateSurvey_def)
qed

text \<open>
  Claim C9. If one of the six Likert items has no selection, \<open>validateSurvey\<close> rejects the
  collected answers, and the submit handler only sets the status line to its message:
  nothing is written to the collection, and the session (with \<open>survey\<close> and
  \<open>surveySubmittedAt\<close>) is as before.
\<close>

theorem onSubmitSurvey_unanswered_likert:
  assumes "i \<in> set likertIds" and "likert_checked form i = None"
  shows "\<not> validateSurvey (collectSurvey form)
     \<and> onSubmitSurvey cond form write_ok now ts st
         = st\<lparr>surveyStatus := ''Please answer all questions before submitting.''\<rparr>
     \<and> study_events (onSubmitSurvey cond form write_ok now ts st) = study_events st
     \<and> session (onSubmitSurvey cond form write_ok now ts st) = session st"
  using validateSurvey_unanswered[OF assms] by (simp add: onSubmitSurvey_def)

theorem onSubmitSurvey_unanswered_likert_witness:
  "''satisfaction'' \<in> set likertIds \<and> likert_checked example_form ''satisfaction'' = None
   \<and> \<not> validateSurvey (collectSurvey example_form)
   \<and> study_events (onSubmitSurvey CondB example_form True 2000 2001 initial_app) = []
   \<and> survey (session (onSubmitSurvey CondB example_form True 2000 2001 initial_app)) = Map.empty
   \<and> surveySubmittedAt (session (onSubmitSurvey CondB example_form True 2000 2001 initial_app)) = None
   \<and> surveyStatus (onSubmitSurvey CondB example_form True 2000 2001 initial_app)
       = ''Please answer all questions before submitting.''"
proof -
  have i: "''satisfaction'' \<in> set likertIds" by (simp add: likertIds_def)
  have n: "likert_checked example_form ''satisfaction'' = None" by (simp add: example_form_def)
  show ?thesis
    using i n onSubmitSurvey_unanswered_likert [OF i n, of CondB True 2000 2001 initial_app]
    by (simp add: initial_app_def)
qed

subsection \<open>Completion of the quantity step\<close>

lemma to_double_3_2: "to_double (3/2) = Fin (3/2)"
  using to_double_exact[of 3 "-1"] by (simp add: power_int_minus)

lemma js_Number_1_5: "js_Number ''1.5'' = Fin (3/2)"
  by (simp add: js_Number_def js_trim_def is_space_def parse_nondecimal_def parse_decimal_def
      parse_unsigned_def parse_unsigned_decimal_def is_digit_def digit_value_def parse_exponent_def
      power_int_minus to_double_3_2)

lemma quantity_step: "baseSteps ! 5 = mk_step ''r1_qty'' ''Recipient: Quantity'' True Number None"
  by (simp add: baseSteps_def)

text \<open>
  Claim C2, as amended. On a required step of kind \<open>number\<close>, as the quantity step is,
  \<open>isStepComplete\<close> returns true if and only if the answer \<open>r1_qty\<close> is present and
  \<open>Number\<close> of it is at least 1: a number that need not be an integer, or \<open>+\<infinity>\<close>.
\<close>

theorem isStepComplete_quantity:
  assumes "required s" and "kind s = Number"
  shows "isStepComplete s a \<longleftrightarrow>
     (case a ''r1_qty'' of
        None \<Rightarrow> False
      | Some v \<Rightarrow> (case js_Number v of Fin q \<Rightarrow> 1 \<le> q | PInf \<Rightarrow> True | _ \<Rightarrow> False))"
  using assms
  by (simp add: isStepComplete_def Number_of_def js_ge_def split: option.splits jsnum.splits)

theorem isStepComplete_quantity_witness:
  "required (baseSteps ! 5) \<and> kind (baseSteps ! 5) = Number
   \<and> isStepComplete (baseSteps ! 5) (Map.empty(''r1_qty'' \<mapsto> ''1''))
   \<and> \<not> isStepComplete (baseSteps ! 5) Map.empty"
proof -
  have r: "required (baseSteps ! 5)" and k: "kind (baseSteps ! 5) = Number"
    by (simp_all add: quantity_step mk_step_def)
  show ?thesis
    using r k isStepComplete_quantity [OF r k, of "Map.empty(''r1_qty'' \<mapsto> ''1'')"]
      isStepComplete_quantity [OF r k, of Map.empty]
    by (simp add: js_Number_1)
qed

text \<open>
  Claim C2 as stated fails: with the quantity \<open>1.5\<close> stored, which the quantity field
  accepts, the step counts as complete, and \<open>1.5\<close> is not an integer.
\<close>

theorem isStepComplete_quantity_counterexample:
  "isStepComplete (baseSteps ! 5) (Map.empty(''r1_qty'' \<mapsto> ''1.5''))
   \<noteq> spec_quantity_complete (Map.empty(''r1_qty'' \<mapsto> ''1.5''))"
proof -
  have "\<lfloor>3 / 2 :: rat\<rfloor> = 1" by (rule floor_unique) simp_all
  then have "\<not> spec_quantity_complete (Map.empty(''r1_qty'' \<mapsto> ''1.5''))"
    by (simp add: spec_quantity_complete_def Number_of_def js_Number_1_5)
  moreover have "isStepComplete (baseSteps ! 5) (Map.empty(''r1_qty'' \<mapsto> ''1.5''))"
    by (simp add: quantity_step mk_step_def isStepComplete_def Number_of_def js_Number_1_5 js_ge_def)
  ultimately show ?thesis by simp
qed

subsection \<open>Spoken numbers\<close>

lemma clampInt_range: "mn \<le> mx \<Longrightarrow> mn \<le> clampInt n mn mx \<and> clampInt n mn mx \<le> mx"
  by (simp add: clampInt_def split: option.splits)

lemma clampInt_cases:
  "clampInt n mn mx = (case n of Fin q \<Rightarrow> clamp_to mn mx \<lfloor>q + 1/2\<rfloor> | _ \<Rightarrow> mn)"
  by (simp add: clampInt_def Math_round_def clamp_to_def split: jsnum.splits)

lemma clampInt_of_nat: "clampInt (Fin (of_nat v)) mn mx = clamp_to mn mx (int v)"
  using clampInt_of_int[of "int v" mn mx] by (simp add: clamp_to_def)

lemma no_number_word_in_empty: "find (\<lambda>kv. js_includes [] (fst kv)) number_words = None"
  by (simp add: number_words_def)

lemma parseSpokenNumberClosest_unfold:
  "parseSpokenNumberClosest raw mn mx fb =
     (case digitMatch (toLowerCase raw) of
        Some m \<Rightarrow> clampInt (js_Number m) mn mx
      | None \<Rightarrow>
         (case find (\<lambda>kv. js_includes (toLowerCase raw) (fst kv)) number_words of
            Some kv \<Rightarrow> clampInt (Fin (of_nat (snd kv))) mn mx
          | None \<Rightarrow> clampInt fb mn mx))"
proof (cases "raw = []")
  case True
  then show ?thesis
    using no_number_word_in_empty
    by (simp add: parseSpokenNumberClosest_def toLowerCase_def)
next
  case False
  then show ?thesis by (simp add: parseSpokenNumberClosest_def Let_def)
qed

text \<open>
  Claim C10, as amended. For bounds \<open>min \<le> max\<close>, \<open>parseSpokenNumberClosest\<close> returns an
  integer between them. It is: for the first digit sequence of the input, taken with a
  minus sign directly before it, the double nearest to that number, rounded and clamped,
  but \<open>min\<close> when the number is too large for a finite double; else the value of the
  first number word of the table that occurs in the input, clamped; else the fallback
  handled by \<open>clampInt\<close>.
\<close>

theorem parseSpokenNumberClosest_range:
  assumes "mn \<le> mx"
  shows "mn \<le> parseSpokenNumberClosest raw mn mx fb
     \<and> parseSpokenNumberClosest raw mn mx fb \<le> mx
     \<and> parseSpokenNumberClosest raw mn mx fb =
         (case digitMatch (toLowerCase raw) of
            Some m \<Rightarrow>
              (case to_double (of_int (signed_decimal m)) of
                 Fin q \<Rightarrow> clamp_to mn mx \<lfloor>q + 1/2\<rfloor>
               | _ \<Rightarrow> mn)
          | None \<Rightarrow>
             (case find (\<lambda>kv. js_includes (toLowerCase raw) (fst kv)) number_words of
                Some kv \<Rightarrow> clamp_to mn mx (int (snd kv))
              | None \<Rightarrow> clampInt fb mn mx))"
proof -
  have range: "mn \<le> parseSpokenNumberClosest raw mn mx fb \<and> parseSpokenNumberClosest raw mn mx fb \<le> mx"
    unfolding parseSpokenNumberClosest_unfold
    using clampInt_range[OF assms] by (simp split: option.splits)
  have shape: "parseSpokenNumberClosest raw mn mx fb =
         (case digitMatch (toLowerCase raw) of
            Some m \<Rightarrow>
              (case to_double (of_int (signed_decimal m)) of
                 Fin q \<Rightarrow> clamp_to mn mx \<lfloor>q + 1/2\<rfloor>
               | _ \<Rightarrow> mn)
          | None \<Rightarrow>
             (case find (\<lambda>kv. js_includes (toLowerCase raw) (fst kv)) number_words of
                Some kv \<Rightarrow> clamp_to mn mx (int (snd kv))
              | None \<Rightarrow> clampInt fb mn mx))"
    unfolding parseSpokenNumberClosest_unfold
    by (simp add: js_Number_digitMatch clampInt_cases[symmetric] clampInt_of_nat split: option.splits)
  from range shape show ?thesis by blast
qed

lemma digitMatch_7: "digitMatch (toLowerCase ''7 cards'') = Some ''7''"
  by (simp add: toLowerCase_def lower_char_def is_digit_def)

lemma to_double_7: "to_double (of_int (signed_decimal ''7'')) = Fin 7"
  by (simp add: signed_decimal_def digit_value_def to_double_numeral)

theorem parseSpokenNumberClosest_range_witness:
  "(1::int) \<le> 10 \<and> parseSpokenNumberClosest ''7 cards'' 1 10 (Fin 1) = 7"
proof -
  have b: "(1::int) \<le> 10" by simp
  have "\<lfloor>7 + 1 / 2 :: rat\<rfloor> = 7" by (rule floor_unique) simp_all
  then show ?thesis
    using b parseSpokenNumberClosest_range [OF b, of "''7 cards''" "Fin 1"]
    by (simp add: digitMatch_7 to_double_7 clamp_to_def)
qed

lemma decimal_acc_nines: "decimal_acc a (replicate n (CHR ''9'')) = (a + 1) * 10 ^ n - 1"
proof (induction n arbitrary: a)
  case 0
  then show ?case by simp
next
  case (Suc n)
  have "decimal_acc a (replicate (Suc n) (CHR ''9'')) = decimal_acc (10 * a + 9) (replicate n (CHR ''9''))"
    by (simp add: digit_value_def)
  also have "\<dots> = (10 * a + 9 + 1) * 10 ^ n - 1" by (rule Suc.IH)
  also have "\<dots> = (a + 1) * 10 ^ Suc n - 1" by (simp add: algebra_simps)
  finally show ?case .
qed

lemma is_digit_9: "is_digit (CHR ''9'')"
  by (simp add: is_digit_def)

lemma digitMatch_nines:
  "digitMatch (toLowerCase (replicate (Suc n) (CHR ''9''))) = Some (replicate (Suc n) (CHR ''9''))"
proof -
  have "lower_char (CHR ''9'') = CHR ''9''" by (simp add: lower_char_def)
  then have "toLowerCase (replicate (Suc n) (CHR ''9'')) = replicate (Suc n) (CHR ''9'')"
    by (simp add: toLowerCase_def)
  moreover have "takeWhile is_digit (replicate n (CHR ''9'')) = replicate n (CHR ''9'')"
    using is_digit_9 by (simp add: takeWhile_eq_all_conv)
  ultimately show ?thesis using is_digit_9 by simp
qed

lemma signed_decimal_nines:
  "signed_decimal (replicate (Suc n) (CHR ''9'')) = 10 ^ Suc n - 1"
proof -
  have "decimal_acc 0 (replicate (Suc n) (CHR ''9'')) = 10 ^ Suc n - 1"
    using decimal_acc_nines[of 0 "Suc n"] by simp
  then show ?thesis by (simp add: signed_decimal_def of_nat_diff)
qed

lemma js_Number_310_nines: "js_Number (replicate 310 (CHR ''9'')) = PInf"
proof -
  have n: "(310::nat) = Suc 309" by simp
  have "js_Number (replicate (Suc 309) (CHR ''9'')) = to_double (of_int (signed_decimal (replicate (Suc 309) (CHR ''9''))))"
    using digitMatch_nines[of 309] by (rule js_Number_digitMatch)
  also have "\<dots> = to_double (of_int (10 ^ 310 - 1))"
    by (simp only: signed_decimal_nines) simp
  also have "\<dots> = PInf" by (rule to_double_overflow) simp
  finally show ?thesis by (simp only: n)
qed

text \<open>
  Claim C10 as stated fails on a digit sequence too long for a finite double: 310 nines
  are \<open>Infinity\<close> as a Number, \<open>clampInt\<close> returns \<open>min\<close> on it, and the quantity is 1,
  where the digit sequence clamped to the range 1..10 is 10.
\<close>

theorem parseSpokenNumberClosest_counterexample:
  "parseSpokenNumberClosest (replicate 310 (CHR ''9'')) 1 10 (Fin 1)
   \<noteq> spec_parseSpokenNumber (replicate 310 (CHR ''9'')) 1 10 (Fin 1)"
proof -
  have n: "(310::nat) = Suc 309" by simp
  have dm: "digitMatch (toLowerCase (replicate 310 (CHR ''9''))) = Some (replicate 310 (CHR ''9''))"
    unfolding n by (rule digitMatch_nines)
  have code: "parseSpokenNumberClosest (replicate 310 (CHR ''9'')) 1 10 (Fin 1) = 1"
    unfolding parseSpokenNumberClosest_unfold dm
    by (simp add: js_Number_310_nines clampInt_def Math_round_def)
  have "signed_decimal (replicate 310 (CHR ''9'')) = 10 ^ 310 - 1"
    unfolding n by (rule signed_decimal_nines)
  then have spec: "spec_parseSpokenNumber (replicate 310 (CHR ''9'')) 1 10 (Fin 1) = 10"
    unfolding spec_parseSpokenNumber_def dm by (simp add: clamp_to_def)
  show ?thesis unfolding code spec by simp
qed

subsection \<open>Monotone pricing\<close>

lemma setAnswer_plain: "k \<noteq> ''card_type'' \<Longrightarrow> setAnswer k v a = a(k \<mapsto> v)"
  by (simp add: setAnswer_def)

lemma ensureRecipient1Defaults_qty:
  "ensureRecipient1Defaults a ''r1_qty'' = (if truthy (a ''r1_qty'') then a ''r1_qty'' else Some ''1'')"
  by (simp add: ensureRecipient1Defaults_def setAnswer_plain Let_def)

lemma ensureRecipient1Defaults_amt:
  "ensureRecipient1Defaults a ''r1_amt'' = (if truthy (a ''r1_amt'') then a ''r1_amt'' else Some ''50'')"
  by (simp add: ensureRecipient1Defaults_def setAnswer_plain Let_def)

lemma ensureRecipient1Defaults_other:
  "k \<notin> {''r1_qty'', ''r1_amt'', ''r1_msg''} \<Longrightarrow> ensureRecipient1Defaults a k = a k"
  by (simp add: ensureRecipient1Defaults_def setAnswer_plain Let_def)


lemma computeTotals_store: "snd (computeTotals a) = ensureRecipient1Defaults a"
  by (simp add: computeTotals_def Let_def)


















subsection \<open>Free-form input that matches nothing\<close>

lemma ensureDesignDefaults_other:
  "k \<notin> {''design_category'', ''design''} \<Longrightarrow> ensureDesignDefaults a k = a k"
  by (simp add: ensureDesignDefaults_def setAnswer_plain Let_def)

lemma ensureRecipient1Defaults_fixed:
  assumes "truthy (a ''r1_qty'')" and "truthy (a ''r1_amt'')" and "a ''r1_msg'' \<noteq> None"
  shows "ensureRecipient1Defaults a = a"
  using assms by (auto simp: ensureRecipient1Defaults_def)

lemma ensureRecipient1Defaults_msg: "ensureRecipient1Defaults a ''r1_msg'' \<noteq> None"
  by (simp add: ensureRecipient1Defaults_def setAnswer_plain Let_def)

lemma ensured_truthy:
  "truthy (ensureRecipient1Defaults a ''r1_qty'')" "truthy (ensureRecipient1Defaults a ''r1_amt'')"
  by (simp_all add: ensureRecipient1Defaults_qty ensureRecipient1Defaults_amt truthy_def)

lemma computePrice_store: "snd (computePrice a) = ensureRecipient1Defaults a"
proof -
  obtain t b where tb: "computeTotals a = (t, b)" by (cases "computeTotals a")
  then have "b = ensureRecipient1Defaults a" using computeTotals_store[of a] by simp
  then show ?thesis unfolding computePrice_def tb by (simp only: Let_def prod.case snd_conv)
qed

text \<open>What a refresh of the preview leaves in the store: the defaults, where missing.\<close>

lemma refreshPreview_defaults:
  "refreshPreview a = ensureDesignDefaults (ensureRecipient1Defaults a)"
proof -
  define b where "b = ensureDesignDefaults (ensureRecipient1Defaults a)"
  have "b ''r1_qty'' = ensureRecipient1Defaults a ''r1_qty''"
    and "b ''r1_amt'' = ensureRecipient1Defaults a ''r1_amt''"
    and "b ''r1_msg'' = ensureRecipient1Defaults a ''r1_msg''"
    by (simp_all add: b_def ensureDesignDefaults_other)
  then have "ensureRecipient1Defaults b = b"
    using ensured_truthy[of a] ensureRecipient1Defaults_msg[of a]
    by (intro ensureRecipient1Defaults_fixed) simp_all
  then have "snd (computeTotals b) = b" and "snd (computePrice b) = b"
    by (simp_all only: computeTotals_store computePrice_store)
  then show ?thesis by (simp only: refreshPreview_def Let_def b_def[symmetric] if_cancel)
qed

text \<open>
  Claim C3, as amended. A free-form input that matches no valid option or number leaves
  the answer store as it is on a choice, design or informational step. On the quantity
  and amount steps it is not ignored: the step's answer is written again, as the stored
  value (1 or 50 when there is none) rounded and clamped to the range of the step, and
  the preview is refreshed.
\<close>

theorem applyFreeformToStep_miss:
  assumes "freeform_miss s raw"
  shows "applyFreeformToStep s raw a =
     (case kind s of
        Number \<Rightarrow>
          refreshPreview
            (setAnswer ''r1_qty'' (js_String (clampInt (Number_or (a ''r1_qty'') (Fin 1)) 1 10)) a)
      | Amount \<Rightarrow>
          refreshPreview
            (setAnswer ''r1_amt'' (js_String (clampInt (Number_or (a ''r1_amt'') (Fin 50)) 5 2000)) a)
      | _ \<Rightarrow> a)"
proof (cases "kind s")
  case Choice
  with assms show ?thesis by (simp add: applyFreeformToStep_def freeform_miss_def)
next
  case Design
  with assms show ?thesis by (simp add: applyFreeformToStep_def freeform_miss_def)
next
  case Number
  with assms have "parseSpokenNumberClosest raw 1 10 (Number_or (a ''r1_qty'') (Fin 1))
      = clampInt (Number_or (a ''r1_qty'') (Fin 1)) 1 10"
    by (simp add: parseSpokenNumberClosest_unfold freeform_miss_def)
  with Number show ?thesis by (simp add: applyFreeformToStep_def)
next
  case Amount
  with assms have "parseSpokenNumberClosest raw 5 2000 (Number_or (a ''r1_amt'') (Fin 50))
      = clampInt (Number_or (a ''r1_amt'') (Fin 50)) 5 2000"
    by (simp add: parseSpokenNumberClosest_unfold freeform_miss_def)
  with Amount show ?thesis by (simp add: applyFreeformToStep_def)
next
  case Text
  with assms show ?thesis by (simp add: freeform_miss_def)
next
  case Info
  then show ?thesis by (simp add: applyFreeformToStep_def)
qed

lemma hello_miss: "freeform_miss (baseSteps ! 5) ''hello''"
  by (simp add: quantity_step mk_step_def freeform_miss_def toLowerCase_def lower_char_def
      is_digit_def number_words_def startsWith_def)

lemma zzz_miss: "freeform_miss (baseSteps ! 0) ''zzz''"
  by code_simp

lemma js_Number_15: "js_Number ''15'' = Fin 15"
  by (simp add: js_Number_def js_trim_def is_space_def parse_nondecimal_def parse_decimal_def
      parse_unsigned_def parse_unsigned_decimal_def is_digit_def digit_value_def parse_exponent_def
      parse_digits_def to_double_numeral)

lemma hello_on_15:
  "refreshPreview
     (setAnswer ''r1_qty'' (js_String (clampInt (Number_or (answers_qty_15 ''r1_qty'') (Fin 1)) 1 10))
        answers_qty_15) ''r1_qty'' = Some ''10''"
proof -
  have "clampInt (Number_or (answers_qty_15 ''r1_qty'') (Fin 1)) 1 10 = 10"
    by (simp add: answers_qty_15_def Number_or_def Number_of_def truthy_def js_Number_15 clampInt_numeral)
  moreover have "js_String 10 = ''10''" by (simp add: js_String_def nat_digits.simps)
  ultimately show ?thesis
    by (simp add: refreshPreview_defaults ensureDesignDefaults_other ensureRecipient1Defaults_qty
        setAnswer_plain truthy_def)
qed

theorem applyFreeformToStep_miss_witness:
  "freeform_miss (baseSteps ! 0) ''zzz''
   \<and> applyFreeformToStep (baseSteps ! 0) ''zzz'' answers_qty_15 = answers_qty_15
   \<and> freeform_miss (baseSteps ! 5) ''hello''
   \<and> applyFreeformToStep (baseSteps ! 5) ''hello'' answers_qty_15 ''r1_qty'' = Some ''10''"
proof -
  have k0: "kind (baseSteps ! 0) = Choice" and k5: "kind (baseSteps ! 5) = Number"
    by (simp_all add: baseSteps_def mk_step_def)
  show ?thesis
    using zzz_miss hello_miss
      applyFreeformToStep_miss [OF zzz_miss, of answers_qty_15]
      applyFreeformToStep_miss [OF hello_miss, of answers_qty_15]
    by (simp add: k0 k5 hello_on_15)
qed

text \<open>
  Claim C3 as stated fails on the quantity step: with 15 stored, the input \<open>hello\<close>,
  which has no digit and no number word, replaces the answer by 10.
\<close>

theorem applyFreeformToStep_miss_counterexample:
  "freeform_miss (baseSteps ! 5) ''hello''
   \<and> applyFreeformToStep (baseSteps ! 5) ''hello'' answers_qty_15 \<noteq> answers_qty_15"
proof -
  have k5: "kind (baseSteps ! 5) = Number" by (simp add: baseSteps_def mk_step_def)
  have "parseSpokenNumberClosest ''hello'' 1 10 (Number_or (answers_qty_15 ''r1_qty'') (Fin 1))
      = clampInt (Number_or (answers_qty_15 ''r1_qty'') (Fin 1)) 1 10"
    using hello_miss by (simp add: parseSpokenNumberClosest_unfold freeform_miss_def k5)
  then have new: "applyFreeformToStep (baseSteps ! 5) ''hello'' answers_qty_15 ''r1_qty'' = Some ''10''"
    by (simp add: applyFreeformToStep_def k5 hello_on_15)
  have old: "answers_qty_15 ''r1_qty'' = Some ''15''" by (simp add: answers_qty_15_def)
  have "applyFreeformToStep (baseSteps ! 5) ''hello'' answers_qty_15 \<noteq> answers_qty_15"
  proof
    assume "applyFreeformToStep (baseSteps ! 5) ''hello'' answers_qty_15 = answers_qty_15"
    then have "applyFreeformToStep (baseSteps ! 5) ''hello'' answers_qty_15 ''r1_qty''
        = answers_qty_15 ''r1_qty''" by (rule arg_cong)
    then show False unfolding new old by simp
  qed
  with hello_miss show ?thesis by simp
qed

subsection \<open>Numbers written by \<open>String\<close> and read back\<close>

lemma digit_chars:
  "\<forall>n \<in> set [0..<10]. is_digit (''0123456789'' ! n) \<and> digit_value (''0123456789'' ! n) = Some n"
  by (simp add: upt_rec is_digit_def digit_value_def)

lemma digit_char:
  assumes "n < 10"
  shows "is_digit (''0123456789'' ! n)" and "digit_value (''0123456789'' ! n) = Some n"
  using assms digit_chars by simp_all

lemma nat_digits_digits: "nat_digits n \<noteq> [] \<and> list_all is_digit (nat_digits n)"
proof (induction n rule: nat_digits.induct)
  case (1 n)
  show ?case
  proof (cases "n < 10")
    case True
    then show ?thesis by (subst (1 2) nat_digits.simps) (simp add: digit_char)
  next
    case False
    then have "n mod 10 < 10" by simp
    then have "is_digit (''0123456789'' ! (n mod 10))" by (rule digit_char)
    with False 1 show ?thesis by (subst (1 2) nat_digits.simps) simp
  qed
qed

lemma decimal_acc_append: "decimal_acc a (xs @ ys) = decimal_acc (decimal_acc a xs) ys"
  by (induction xs arbitrary: a) simp_all

lemma decimal_nat_digits: "decimal_acc 0 (nat_digits n) = n"
proof (induction n rule: nat_digits.induct)
  case (1 n)
  show ?case
  proof (cases "n < 10")
    case True
    then show ?thesis by (subst nat_digits.simps) (simp add: digit_char)
  next
    case False
    have "n mod 10 < 10" by simp
    then have "digit_value (''0123456789'' ! (n mod 10)) = Some (n mod 10)" by (rule digit_char)
    with False 1 show ?thesis
      by (subst nat_digits.simps) (simp add: decimal_acc_append)
  qed
qed

lemma signed_decimal_js_String: "signed_decimal (js_String n) = n"
proof (cases "n < 0")
  case True
  then show ?thesis by (simp add: js_String_def signed_decimal_def decimal_nat_digits)
next
  case False
  obtain c cs where ds: "nat_digits (nat n) = c # cs"
    using nat_digits_digits[of "nat n"] by (cases "nat_digits (nat n)") auto
  then have "is_digit c" using nat_digits_digits[of "nat n"] by simp
  then have "c \<noteq> CHR ''-''" using is_digit_not_other by fastforce
  then have "signed_decimal (nat_digits (nat n)) = int (decimal_acc 0 (nat_digits (nat n)))"
    by (simp add: signed_decimal_def ds)
  with False show ?thesis by (simp add: js_String_def decimal_nat_digits)
qed

text \<open>\<open>Number(String(n))\<close> is the double nearest to \<open>n\<close>.\<close>

lemma js_Number_js_String: "js_Number (js_String n) = to_double (of_int n)"
proof -
  have "js_Number (js_String n) = to_double (of_int (signed_decimal (js_String n)))"
  proof (cases "n < 0")
    case True
    then show ?thesis
      using nat_digits_digits[of "nat (- n)"] by (simp add: js_String_def js_Number_minus_digits)
  next
    case False
    then show ?thesis
      using nat_digits_digits[of "nat n"] by (simp add: js_String_def js_Number_digits)
  qed
  then show ?thesis by (simp only: signed_decimal_js_String)
qed

lemma js_String_nonempty: "js_String n \<noteq> []"
  using nat_digits_digits by (simp add: js_String_def)

text \<open>
  On the quantity step an input that matches nothing leaves the store as it is when the
  stored quantity is an integer of the range 1..10 in the form \<open>String\<close> writes it
  and the defaults are in place.
\<close>

lemma applyFreeformToStep_miss_in_range:
  assumes miss: "freeform_miss s raw" and k: "kind s = Number"
    and stored: "a ''r1_qty'' = Some (js_String n)" and range: "1 \<le> n" "n \<le> 10"
    and defaults: "refreshPreview a = a"
  shows "applyFreeformToStep s raw a = a"
proof -
  have "\<bar>n\<bar> < 2 ^ 53" using range by simp
  then have "js_Number (js_String n) = Fin (of_int n)"
    by (simp add: js_Number_js_String to_double_int)
  then have "clampInt (Number_or (a ''r1_qty'') (Fin 1)) 1 10 = n"
    using range by (simp add: Number_or_def Number_of_def truthy_def stored js_String_nonempty clampInt_of_int)
  moreover have "parseSpokenNumberClosest raw 1 10 (Number_or (a ''r1_qty'') (Fin 1))
      = clampInt (Number_or (a ''r1_qty'') (Fin 1)) 1 10"
    using miss k by (simp add: parseSpokenNumberClosest_unfold freeform_miss_def)
  moreover have "setAnswer ''r1_qty'' (js_String n) a = a"
    using stored by (simp add: setAnswer_plain map_upd_triv)
  ultimately show ?thesis using k defaults by (simp add: applyFreeformToStep_def)
qed

subsection \<open>The transition log\<close>

lemma renderStep_transitions:
  "transitions (session (renderStep cond now st)) = transitions (session st)"
  by (simp add: renderStep_def Let_def)

lemma renderStep_entered:
  "stepEnteredAt (renderStep cond now st) = Some now
   \<or> stepEnteredAt (renderStep cond now st) = stepEnteredAt st"
  by (simp add: renderStep_def Let_def)

lemma recordTransition_log:
  "transitions (session (recordTransition act fromStep toStep n now st)) =
     transitions (session st) @
       [\<lparr>action = act, from_step_id = map_option step_id fromStep, from_step_index = currentStep st,
         to_step_id = map_option (\<lambda>t. step_id (fst t)) toStep, to_step_index = map_option snd toStep,
         step_count = n, enteredAt = stepEnteredAt st, exitedAt = now,
         dwellMs = (case stepEnteredAt st of None \<Rightarrow> None
                    | Some e \<Rightarrow> if e = 0 then None else Some (now - e))\<rparr>]"
  by (simp add: recordTransition_def)

lemma recordTransition_entered:
  "stepEnteredAt (recordTransition act fromStep toStep n now st) = stepEnteredAt st"
  by (simp add: recordTransition_def)

text \<open>Each event leaves the log as it is or appends one entry to it.\<close>

lemma fire_log:
  "\<exists>new. transitions (session (fire cond ev st)) = transitions (session st) @ new
     \<and> length new = (if navigates ev st then 1 else 0)"
proof (cases ev)
  case (Start now1 now2)
  then show ?thesis
    by (simp add: fire_def navigates_def startBtn_click_def renderStep_transitions Let_def)
next
  case (Next now1 now2)
  then show ?thesis
    by (simp add: fire_def navigates_def nextBtn_click_def renderStep_transitions
        recordTransition_log Let_def)
next
  case (Back now1 now2)
  then show ?thesis
    by (simp add: fire_def navigates_def backBtn_click_def renderStep_transitions
        recordTransition_log Let_def)
next
  case (Answer k v)
  then show ?thesis by (simp add: fire_def navigates_def)
next
  case Refresh
  then show ?thesis by (simp add: fire_def navigates_def)
next
  case (Freeform raw)
  then show ?thesis by (simp add: fire_def navigates_def)
next
  case (Method m)
  then show ?thesis by (simp add: fire_def navigates_def)
next
  case (Submit form write_ok now ts)
  then show ?thesis
    by (simp add: fire_def navigates_def onSubmitSurvey_def writeFinal_def Let_def)
qed

lemma new_entry_ok:
  assumes "case entered of None \<Rightarrow> True | Some e \<Rightarrow> 0 < e \<and> e \<le> now"
  shows "dwell_ok \<lparr>action = act, from_step_id = f, from_step_index = i, to_step_id = t,
           to_step_index = j, step_count = n, enteredAt = entered, exitedAt = now,
           dwellMs = (case entered of None \<Rightarrow> None | Some e \<Rightarrow> if e = 0 then None else Some (now - e))\<rparr>"
  using assms by (cases entered) (simp_all add: dwell_ok_def)

lemma log_inv_later: "log_inv t st \<Longrightarrow> t \<le> t' \<Longrightarrow> log_inv t' st"
  by (auto simp: log_inv_def split: option.splits)

lemma log_inv_render:
  assumes "log_inv t st" and "t \<le> now" and "0 < now"
  shows "log_inv now (renderStep cond now st)"
proof -
  have "list_all dwell_ok (transitions (session (renderStep cond now st)))"
    using assms(1) by (simp add: renderStep_transitions log_inv_def)
  moreover have "case stepEnteredAt (renderStep cond now st) of None \<Rightarrow> True | Some e \<Rightarrow> 0 < e \<and> e \<le> now"
    using renderStep_entered[of cond now st] assms
    by (auto simp: log_inv_def split: option.splits)
  ultimately show ?thesis by (simp add: log_inv_def)
qed

lemma log_inv_record:
  assumes "log_inv t st" and "t \<le> now"
  shows "log_inv now (recordTransition act fromStep toStep n now st)"
proof -
  have e: "case stepEnteredAt st of None \<Rightarrow> True | Some e \<Rightarrow> 0 < e \<and> e \<le> now"
    using assms by (auto simp: log_inv_def split: option.splits)
  then show ?thesis
    using assms(1) new_entry_ok[OF e]
    by (simp add: log_inv_def recordTransition_log recordTransition_entered)
qed

lemma log_inv_fields:
  assumes "stepEnteredAt st' = stepEnteredAt st"
    and "transitions (session st') = transitions (session st)"
  shows "log_inv t st' = log_inv t st"
  using assms by (simp add: log_inv_def)

lemma fire_inv:
  assumes inv: "log_inv t0 st" and t0: "0 \<le> t0"
    and sorted: "sorted (t0 # event_times ev)" and pos: "0 \<notin> set (event_times ev)"
  shows "log_inv (last (t0 # event_times ev)) (fire cond ev st)"
proof (cases ev)
  case (Start now1 now2)
  with t0 sorted pos have le: "t0 \<le> now1" "now1 \<le> now2" "0 < now2"
    by (auto simp: event_times_def)
  let ?st = "st\<lparr>session := (session st)\<lparr>startedAt := Some now1\<rparr>,
               screen := ''checkoutScreen'',
               answers := setAnswer ''r1_msg'' []
                (setAnswer ''r1_amt'' ''50''
                  (setAnswer ''r1_qty'' ''1''
                    (setAnswer ''design'' ''confetti''
                      (setAnswer ''design_category'' ''All'' (answers st))))),
               currentInputMethod := Str ''standard'',
               currentStep := 0\<rparr>"
  have "t0 \<le> now2" using le by simp
  moreover have "log_inv t0 ?st" using inv by (simp add: log_inv_def)
  ultimately have "log_inv now2 (renderStep cond now2 ?st)"
    using le(3) by (intro log_inv_render[of t0])
  then show ?thesis using Start by (simp add: fire_def startBtn_click_def event_times_def Let_def)
next
  case (Next now1 now2)
  with t0 sorted pos have le: "t0 \<le> now1" "now1 \<le> now2" "0 < now2"
    by (auto simp: event_times_def)
  have last: "last (t0 # event_times ev) = now2" using Next by (simp add: event_times_def)
  show ?thesis
  proof (cases "navigates ev st")
    case True
    let ?flow = "computeFlow (answers st)"
    let ?st1 = "recordTransition ''next'' (Some (?flow ! currentStep st))
        (step_at ?flow (currentStep st + 1)) (length ?flow) now1 st"
    have "log_inv now1 ?st1" using inv le(1) by (rule log_inv_record)
    then have "log_inv now1 (?st1\<lparr>currentStep := currentStep st + 1\<rparr>)" by (simp add: log_inv_def)
    then have "log_inv now2 (renderStep cond now2 (?st1\<lparr>currentStep := currentStep st + 1\<rparr>))"
      using le(2,3) by (intro log_inv_render[of now1])
    moreover have "fire cond ev st = renderStep cond now2 (?st1\<lparr>currentStep := currentStep st + 1\<rparr>)"
      using True Next by (simp add: fire_def navigates_def nextBtn_click_def Let_def)
    ultimately show ?thesis unfolding last by simp
  next
    case False
    then have "stepEnteredAt (fire cond ev st) = stepEnteredAt st"
      and "transitions (session (fire cond ev st)) = transitions (session st)"
      using Next by (auto simp: fire_def navigates_def nextBtn_click_def Let_def)
    then have "log_inv now2 (fire cond ev st) = log_inv now2 st" by (rule log_inv_fields)
    moreover have "log_inv now2 st" using inv le by (intro log_inv_later[of t0 st now2]) simp_all
    ultimately show ?thesis unfolding last by simp
  qed
next
  case (Back now1 now2)
  with t0 sorted pos have le: "t0 \<le> now1" "now1 \<le> now2" "0 < now2"
    by (auto simp: event_times_def)
  have last: "last (t0 # event_times ev) = now2" using Back by (simp add: event_times_def)
  show ?thesis
  proof (cases "0 < currentStep st")
    case True
    let ?flow = "computeFlow (answers st)"
    let ?st1 = "recordTransition ''back'' (map_option fst (step_at ?flow (currentStep st)))
        (step_at ?flow (currentStep st - 1)) (length ?flow) now1 st"
    have "log_inv now1 ?st1" using inv le(1) by (rule log_inv_record)
    then have "log_inv now1 (?st1\<lparr>currentStep := currentStep st - 1\<rparr>)" by (simp add: log_inv_def)
    then have "log_inv now2 (renderStep cond now2 (?st1\<lparr>currentStep := currentStep st - 1\<rparr>))"
      using le(2,3) by (intro log_inv_render[of now1])
    moreover have "fire cond ev st = renderStep cond now2 (?st1\<lparr>currentStep := currentStep st - 1\<rparr>)"
      using True Back by (simp add: fire_def backBtn_click_def Let_def)
    ultimately show ?thesis unfolding last by simp
  next
    case False
    then have "fire cond ev st = st" using Back by (simp add: fire_def backBtn_click_def)
    moreover have "log_inv now2 st" using inv le by (intro log_inv_later[of t0 st now2]) simp_all
    ultimately show ?thesis unfolding last by simp
  qed
next
  case (Answer k v)
  then show ?thesis using inv by (simp add: fire_def event_times_def log_inv_def)
next
  case Refresh
  then show ?thesis using inv by (simp add: fire_def event_times_def log_inv_def)
next
  case (Freeform raw)
  then show ?thesis using inv by (simp add: fire_def event_times_def log_inv_def)
next
  case (Method m)
  then show ?thesis using inv by (simp add: fire_def event_times_def log_inv_def)
next
  case (Submit form write_ok now ts)
  with t0 sorted have le: "t0 \<le> ts" by (auto simp: event_times_def)
  have "stepEnteredAt (fire cond ev st) = stepEnteredAt st"
    and "transitions (session (fire cond ev st)) = transitions (session st)"
    using Submit by (simp_all add: fire_def onSubmitSurvey_def writeFinal_def Let_def)
  then have "log_inv ts (fire cond ev st) = log_inv ts st" by (rule log_inv_fields)
  moreover have "log_inv ts st" using inv le by (rule log_inv_later)
  ultimately show ?thesis using Submit by (simp add: event_times_def)
qed

lemma last_ge: "sorted (t # ts) \<Longrightarrow> t \<le> last (t # ts)"
  by (induction ts arbitrary: t) auto

lemma run_inv:
  assumes "log_inv t0 st" and "0 \<le> t0"
    and "sorted (t0 # concat (map event_times evs))" and "0 \<notin> set (concat (map event_times evs))"
  shows "\<exists>t. log_inv t (run cond evs st)"
  using assms
proof (induction evs arbitrary: t0 st)
  case Nil
  then show ?case by (auto simp: run_def)
next
  case (Cons ev evs)
  let ?ts = "event_times ev"
  let ?t1 = "last (t0 # ?ts)"
  from Cons.prems(3) have s: "sorted ((t0 # ?ts) @ concat (map event_times evs))" by simp
  then have s1: "sorted (t0 # ?ts)"
    and s2: "\<forall>x \<in> set (t0 # ?ts). \<forall>y \<in> set (concat (map event_times evs)). x \<le> y"
    and s3: "sorted (concat (map event_times evs))"
    unfolding sorted_append by blast+
  have "?t1 \<in> set (t0 # ?ts)" by (rule last_in_set) simp
  with s2 have "\<forall>y \<in> set (concat (map event_times evs)). ?t1 \<le> y" by blast
  with s3 have s4: "sorted (?t1 # concat (map event_times evs))"
    by (simp only: sorted_simps)
  have t1: "0 \<le> ?t1" using last_ge[OF s1] Cons.prems(2) by simp
  have p: "0 \<notin> set ?ts" "0 \<notin> set (concat (map event_times evs))" using Cons.prems(4) by auto
  have "log_inv ?t1 (fire cond ev st)"
    using Cons.prems(1,2) s1 p(1) by (rule fire_inv)
  from Cons.IH[OF this t1 s4 p(2)] show ?case by (simp add: run_def)
qed

lemma initial_inv: "log_inv 0 initial_app"
  by (simp add: log_inv_def initial_app_def)

lemma run_log_extends:
  "\<exists>new. transitions (session (run cond evs st)) = transitions (session st) @ new"
proof (induction evs arbitrary: st)
  case Nil
  then show ?case by (simp add: run_def)
next
  case (Cons ev evs)
  obtain n1 where n1: "transitions (session (fire cond ev st)) = transitions (session st) @ n1"
    using fire_log[of cond ev st] by blast
  obtain n2 where "transitions (session (run cond evs (fire cond ev st)))
      = transitions (session (fire cond ev st)) @ n2"
    using Cons.IH[of "fire cond ev st"] by blast
  then have "transitions (session (run cond (ev # evs) st)) = transitions (session st) @ (n1 @ n2)"
    by (simp add: run_def n1)
  then show ?case by blast
qed

text \<open>
  Claim C8, as amended. The log only grows at its end, along every run and at every
  event, by exactly one entry at each click that navigates (Continue on a complete step,
  Back from a later step) and by none at any other event, a blocked Continue among them.
  When the clock shows a time after the epoch and is never set back, every recorded dwell
  time is non-negative, or \<open>null\<close> on an entry whose entry time was not recorded.
\<close>

theorem transition_log_append_only:
  assumes "clock_ok evs"
  shows "(\<forall>tr \<in> set (transitions (session (run cond evs initial_app))). dwell_ok tr)
     \<and> (\<exists>new. transitions (session (fire cond ev st)) = transitions (session st) @ new
             \<and> length new = (if navigates ev st then 1 else 0))
     \<and> (\<exists>new. transitions (session (run cond evs' st)) = transitions (session st) @ new)"
proof -
  from assms have "sorted (0 # concat (map event_times evs))" "0 \<notin> set (concat (map event_times evs))"
    by (simp_all add: clock_ok_def)
  with initial_inv obtain t where "log_inv t (run cond evs initial_app)"
    using run_inv[of 0 initial_app evs cond] by auto
  then have "\<forall>tr \<in> set (transitions (session (run cond evs initial_app))). dwell_ok tr"
    by (simp add: log_inv_def list_all_iff)
  with fire_log[of cond ev st] run_log_extends[of cond evs' st] show ?thesis by blast
qed

lemma flow_length: "length (computeFlow a) = (if a ''card_type'' = Some ''Digital'' then 11 else 12)"
  by (simp add: computeFlow_def baseSteps_def getConditionalSteps_def)

lemma flow_0: "step_id (computeFlow a ! 0) = ''card_type'' \<and> kind (computeFlow a ! 0) = Choice
    \<and> required (computeFlow a ! 0)"
  by (simp add: computeFlow_def baseSteps_def mk_step_def)

lemma flow_1: "step_id (computeFlow a ! Suc 0) = ''variant''"
  by (simp add: computeFlow_def baseSteps_def mk_step_def)

lemma renderStep_currentStep: "currentStep (renderStep cond now st) = currentStep st"
  by (simp add: renderStep_def Let_def)

lemma renderStep_entered_step:
  "currentStep st < length (computeFlow (answers st)) \<Longrightarrow> stepEnteredAt (renderStep cond now st) = Some now"
  by (simp add: renderStep_def Let_def)

lemma renderStep_answers:
  assumes "currentStep st < length (computeFlow (answers st))"
  shows "answers (renderStep cond now st) = ensureDesignDefaults (ensureRecipient1Defaults (answers st))"
proof -
  have "refreshPreview (ensureDesignDefaults (ensureRecipient1Defaults a))
      = ensureDesignDefaults (ensureRecipient1Defaults a)" for a
  proof -
    define b where "b = ensureDesignDefaults (ensureRecipient1Defaults a)"
    have "b ''r1_qty'' = ensureRecipient1Defaults a ''r1_qty''"
      and "b ''r1_amt'' = ensureRecipient1Defaults a ''r1_amt''"
      and "b ''r1_msg'' = ensureRecipient1Defaults a ''r1_msg''"
      by (simp_all add: b_def ensureDesignDefaults_other)
    then have r: "ensureRecipient1Defaults b = b"
      using ensured_truthy[of a] ensureRecipient1Defaults_msg[of a]
      by (intro ensureRecipient1Defaults_fixed) simp_all
    have "truthy (b ''design_category'')" "truthy (b ''design'')"
      by (simp_all add: b_def ensureDesignDefaults_def setAnswer_plain truthy_def Let_def)
    then have "ensureDesignDefaults b = b" by (simp add: ensureDesignDefaults_def)
    then show ?thesis unfolding b_def[symmetric] by (simp add: refreshPreview_defaults r)
  qed
  then show ?thesis using assms by (simp add: renderStep_def Let_def)
qed

text \<open>The entry that a Continue click on a complete step appends.\<close>

lemma fire_Next_log:
  assumes "navigates (Next now1 now2) st"
  shows "transitions (session (fire cond (Next now1 now2) st)) =
     transitions (session st) @
       [\<lparr>action = ''next'',
         from_step_id = Some (step_id (computeFlow (answers st) ! currentStep st)),
         from_step_index = currentStep st,
         to_step_id = map_option (\<lambda>t. step_id (fst t)) (step_at (computeFlow (answers st)) (currentStep st + 1)),
         to_step_index = map_option snd (step_at (computeFlow (answers st)) (currentStep st + 1)),
         step_count = length (computeFlow (answers st)),
         enteredAt = stepEnteredAt st, exitedAt = now1,
         dwellMs = (case stepEnteredAt st of None \<Rightarrow> None
                    | Some e \<Rightarrow> if e = 0 then None else Some (now1 - e))\<rparr>]"
  using assms
  by (simp add: fire_def navigates_def nextBtn_click_def renderStep_transitions
      recordTransition_log Let_def)

lemma started_fields:
  "currentStep (fire cond (Start now1 now2) initial_app) = 0"
  "stepEnteredAt (fire cond (Start now1 now2) initial_app) = Some now2"
  "transitions (session (fire cond (Start now1 now2) initial_app)) = []"
  "answers (fire cond (Start now1 now2) initial_app) ''card_type'' = None"
proof -
  let ?a = "setAnswer ''r1_msg'' [] (setAnswer ''r1_amt'' ''50'' (setAnswer ''r1_qty'' ''1''
       (setAnswer ''design'' ''confetti'' (setAnswer ''design_category'' ''All'' Map.empty))))"
  let ?st = "initial_app\<lparr>session := (session initial_app)\<lparr>startedAt := Some now1\<rparr>,
       screen := ''checkoutScreen'', answers := ?a, currentInputMethod := Str ''standard'',
       currentStep := 0\<rparr>"
  have f: "fire cond (Start now1 now2) initial_app = renderStep cond now2 ?st"
    by (simp add: fire_def startBtn_click_def Let_def initial_app_def)
  have lt: "currentStep ?st < length (computeFlow (answers ?st))" by (simp add: flow_length)
  show "currentStep (fire cond (Start now1 now2) initial_app) = 0"
    unfolding f renderStep_currentStep by simp
  show "stepEnteredAt (fire cond (Start now1 now2) initial_app) = Some now2"
    unfolding f by (rule renderStep_entered_step[OF lt])
  show "transitions (session (fire cond (Start now1 now2) initial_app)) = []"
    unfolding f renderStep_transitions by (simp add: initial_app_def)
  have "?a ''card_type'' = None" by (simp add: setAnswer_plain)
  then show "answers (fire cond (Start now1 now2) initial_app) ''card_type'' = None"
    unfolding f renderStep_answers[OF lt]
    by (simp add: ensureDesignDefaults_other ensureRecipient1Defaults_other)
qed

text \<open>The log after the checkout is started, the card type chosen and Continue clicked.\<close>

lemma first_step_log:
  "transitions (session
      (run cond [Start now1 now2, Answer ''card_type'' ''Digital'', Next now3 now4] initial_app))
   = [\<lparr>action = ''next'', from_step_id = Some ''card_type'', from_step_index = 0,
       to_step_id = Some ''variant'', to_step_index = Some 1, step_count = 11,
       enteredAt = Some now2, exitedAt = now3,
       dwellMs = (if now2 = 0 then None else Some (now3 - now2))\<rparr>]"
proof -
  define st1 where "st1 = fire cond (Start now1 now2) initial_app"
  define st2 where "st2 = fire cond (Answer ''card_type'' ''Digital'') st1"
  have s2: "currentStep st2 = 0" "stepEnteredAt st2 = Some now2" "transitions (session st2) = []"
    "answers st2 ''card_type'' = Some ''Digital''"
    using started_fields[of cond now1 now2] by (simp_all add: st2_def st1_def fire_def setAnswer_def)
  have nav: "navigates (Next now3 now4) st2"
    by (simp add: navigates_def s2 flow_length flow_0 isStepComplete_def truthy_def)
  have "run cond [Start now1 now2, Answer ''card_type'' ''Digital'', Next now3 now4] initial_app
      = fire cond (Next now3 now4) st2"
    by (simp add: run_def st2_def st1_def)
  then show ?thesis
    by (simp add: fire_Next_log[OF nav] s2 step_at_def flow_length flow_0 flow_1)
qed

lemma example_run_log:
  "transitions (session
      (run CondA [Start 1000 1001, Answer ''card_type'' ''Digital'', Next 5000 5001] initial_app))
   = [\<lparr>action = ''next'', from_step_id = Some ''card_type'', from_step_index = 0,
       to_step_id = Some ''variant'', to_step_index = Some 1, step_count = 11,
       enteredAt = Some 1001, exitedAt = 5000, dwellMs = Some 3999\<rparr>]"
  by (simp add: first_step_log)

theorem transition_log_append_only_witness:
  "clock_ok [Start 1000 1001, Answer ''card_type'' ''Digital'', Next 5000 5001]
   \<and> transitions (session
        (run CondA [Start 1000 1001, Answer ''card_type'' ''Digital'', Next 5000 5001] initial_app))
      = [\<lparr>action = ''next'', from_step_id = Some ''card_type'', from_step_index = 0,
          to_step_id = Some ''variant'', to_step_index = Some 1, step_count = 11,
          enteredAt = Some 1001, exitedAt = 5000, dwellMs = Some 3999\<rparr>]
   \<and> dwell_ok \<lparr>action = ''next'', from_step_id = Some ''card_type'', from_step_index = 0,
          to_step_id = Some ''variant'', to_step_index = Some 1, step_count = 11,
          enteredAt = Some 1001, exitedAt = 5000, dwellMs = Some 3999\<rparr>"
proof -
  have c: "clock_ok [Start 1000 1001, Answer ''card_type'' ''Digital'', Next 5000 5001]"
    by (simp add: clock_ok_def event_times_def)
  from transition_log_append_only [OF c, of CondA Refresh initial_app "[]"]
  have "\<forall>tr \<in> set (transitions (session
          (run CondA [Start 1000 1001, Answer ''card_type'' ''Digital'', Next 5000 5001] initial_app))).
        dwell_ok tr" by (rule conjunct1)
  then have "dwell_ok \<lparr>action = ''next'', from_step_id = Some ''card_type'', from_step_index = 0,
          to_step_id = Some ''variant'', to_step_index = Some 1, step_count = 11,
          enteredAt = Some 1001, exitedAt = 5000, dwellMs = Some 3999\<rparr>"
    unfolding example_run_log by simp
  with c example_run_log show ?thesis by (simp only: simp_thms)
qed

text \<open>
  Claim C8 as stated fails when the clock is set back: a step entered at the reading
  2000 and left at the reading 1500 is recorded with a dwell time of -500.
\<close>

theorem transition_log_dwell_counterexample:
  "map dwellMs (transitions (session
      (run CondA [Start 1000 2000, Answer ''card_type'' ''Digital'', Next 1500 1501] initial_app)))
     = [Some (- 500)]
   \<and> \<not> list_all dwell_ok (transitions (session
      (run CondA [Start 1000 2000, Answer ''card_type'' ''Digital'', Next 1500 1501] initial_app)))"
  by (simp add: first_step_log dwell_ok_def)

end
